theory Spec2Isabelle
  imports Complex_Main
begin

section \<open>Python objects: tensors, state lists, dictionaries\<close>

text \<open>
  The module \<^verbatim>\<open>model/model.py\<close> wraps encoder-decoder networks and hands out copies of
  their recurrent state. Its claims are about aliasing, so objects live in an explicit
  store: an address is an index into the store, an allocation appends, and nothing is
  ever freed (a Python reference never dangles).
\<close>

datatype error = IndexError | KeyError | AttributeError | RuntimeError

type_synonym addr = nat

text \<open>
  A tensor element: a finite number, or one of the three special values of the floating
  point format. Only multiplication by the constant \<^verbatim>\<open>0\<close> is ever applied to an
  element here, which is exact on finite values (the sign of a zero is not
  distinguished: \<^verbatim>\<open>-0.0 == 0\<close> holds in Python).
\<close>

datatype fval = Fin real | PInf | NInf | NaN

record tensor =
  shape :: "nat list"
  elems :: "fval list"

text \<open>
  One entry of a state list, as the docstring of \<^verbatim>\<open>copy_states\<close> gives it:
  \<^verbatim>\<open>None\<close>, a tensor (GRU), or a tuple of two tensors (LSTM). The tensors are
  references into the store.
\<close>

datatype state = SNone | STensor addr | STuple addr addr

datatype pyval = IntV int | StrV string | BoolV bool | NoneV

text \<open>
  The store: the tensor, list and dictionary objects, and what automatic differentiation
  keeps about each tensor as far as copying depends on it: the attributes
  \<^verbatim>\<open>requires_grad\<close> and \<^verbatim>\<open>is_leaf\<close> (the tensor is no inner node of a gradient graph),
  and the global gradient mode.
\<close>

record heap =
  tensor_store :: "tensor list"
  list_store :: "state list list"
  dict_store :: "(string \<rightharpoonup> pyval) list"
  requires_grad :: "addr \<Rightarrow> bool"
  is_leaf :: "addr \<Rightarrow> bool"
  grad_enabled :: bool

text \<open>What a state entry holds, read through the store.\<close>

datatype sval = VNone | VTensor tensor | VTuple tensor tensor

fun read_state :: "heap \<Rightarrow> state \<Rightarrow> sval" where
  "read_state h SNone = VNone"
| "read_state h (STensor a) = VTensor (tensor_store h ! a)"
| "read_state h (STuple a b) = VTuple (tensor_store h ! a) (tensor_store h ! b)"

definition read_states :: "heap \<Rightarrow> addr \<Rightarrow> sval list" where
  "read_states h l = map (read_state h) (list_store h ! l)"

fun refs_of :: "state \<Rightarrow> addr set" where
  "refs_of SNone = {}"
| "refs_of (STensor a) = {a}"
| "refs_of (STuple a b) = {a, b}"

definition refs :: "state list \<Rightarrow> addr set" where
  "refs ss = (\<Union>s \<in> set ss. refs_of s)"

text \<open>A store is well formed when every reference in it points to an allocated object.\<close>

definition wf_states :: "heap \<Rightarrow> state list \<Rightarrow> bool" where
  "wf_states h ss = (\<forall>a \<in> refs ss. a < length (tensor_store h))"

definition wf_list :: "heap \<Rightarrow> addr \<Rightarrow> bool" where
  "wf_list h l = (l < length (list_store h) \<and> wf_states h (list_store h ! l))"

subsection \<open>Mutations a caller can apply to a state list\<close>

text \<open>\<^verbatim>\<open>lst[i] = v\<close> on a list object.\<close>

definition setitem :: "heap \<Rightarrow> addr \<Rightarrow> nat \<Rightarrow> state \<Rightarrow> error + heap" where
  "setitem h l i v =
     (if i < length (list_store h ! l)
      then Inr (h\<lparr>list_store := (list_store h)[l := (list_store h ! l)[i := v]]\<rparr>)
      else Inl IndexError)"

text \<open>An in-place operation on a tensor (\<^verbatim>\<open>t.zero_()\<close>, \<^verbatim>\<open>t.copy_(v)\<close>, \<^verbatim>\<open>t[...] = v\<close>):
  the storage of the tensor at \<open>a\<close> now holds \<open>t\<close>.\<close>

definition tensor_write :: "heap \<Rightarrow> addr \<Rightarrow> tensor \<Rightarrow> heap" where
  "tensor_write h a t = h\<lparr>tensor_store := (tensor_store h)[a := t]\<rparr>"

subsection \<open>Library operations\<close>

text \<open>
  \<^verbatim>\<open>tensor.clone()\<close>: a new tensor with storage of its own and the same contents. The
  clone is recorded in the gradient graph, and so is no leaf, exactly when its source
  requires a gradient and the gradient mode is on.
\<close>

definition tensor_clone :: "heap \<Rightarrow> addr \<Rightarrow> addr \<times> heap" where
  "tensor_clone h a =
     (let n = length (tensor_store h); tracked = (grad_enabled h \<and> requires_grad h a)
      in (n, h\<lparr>tensor_store := tensor_store h @ [tensor_store h ! a],
                requires_grad := (requires_grad h)(n := tracked),
                is_leaf := (is_leaf h)(n := \<not> tracked)\<rparr>))"

text \<open>
  \<^verbatim>\<open>copy.deepcopy\<close>: \<^verbatim>\<open>None\<close> is returned as it is, a tuple and a list are rebuilt from
  the copies of their items, and a tensor is copied by its own \<^verbatim>\<open>__deepcopy__\<close>. That
  raises \<^verbatim>\<open>RuntimeError\<close> on a tensor that is no graph leaf; a leaf is copied once, into
  a new leaf with storage of its own, and the copy is remembered in the memo, so that a
  tensor met twice is copied once.
\<close>

type_synonym memo = "(addr \<times> addr) list"

definition deepcopy_tensor :: "heap \<Rightarrow> memo \<Rightarrow> addr \<Rightarrow> error + (addr \<times> heap \<times> memo)" where
  "deepcopy_tensor h memo a =
     (if \<not> is_leaf h a then Inl RuntimeError
      else case map_of memo a of
        Some a' \<Rightarrow> Inr (a', h, memo)
      | None \<Rightarrow>
          (let n = length (tensor_store h)
           in Inr (n, h\<lparr>tensor_store := tensor_store h @ [tensor_store h ! a],
                        requires_grad := (requires_grad h)(n := requires_grad h a),
                        is_leaf := (is_leaf h)(n := True)\<rparr>,
                   (a, n) # memo)))"

fun deepcopy_state :: "heap \<Rightarrow> memo \<Rightarrow> state \<Rightarrow> error + (state \<times> heap \<times> memo)" where
  "deepcopy_state h memo SNone = Inr (SNone, h, memo)"
| "deepcopy_state h memo (STensor a) =
     (case deepcopy_tensor h memo a of
        Inl e \<Rightarrow> Inl e
      | Inr (a', h1, memo1) \<Rightarrow> Inr (STensor a', h1, memo1))"
| "deepcopy_state h memo (STuple a b) =
     (case deepcopy_tensor h memo a of
        Inl e \<Rightarrow> Inl e
      | Inr (a', h1, memo1) \<Rightarrow>
          (case deepcopy_tensor h1 memo1 b of
             Inl e \<Rightarrow> Inl e
           | Inr (b', h2, memo2) \<Rightarrow> Inr (STuple a' b', h2, memo2)))"

fun deepcopy_states ::
  "heap \<Rightarrow> memo \<Rightarrow> state list \<Rightarrow> error + (state list \<times> heap \<times> memo)" where
  "deepcopy_states h memo [] = Inr ([], h, memo)"
| "deepcopy_states h memo (s # ss) =
     (case deepcopy_state h memo s of
        Inl e \<Rightarrow> Inl e
      | Inr (s', h1, memo1) \<Rightarrow>
          (case deepcopy_states h1 memo1 ss of
             Inl e \<Rightarrow> Inl e
           | Inr (ss', h2, memo2) \<Rightarrow> Inr (s' # ss', h2, memo2)))"

definition deepcopy :: "heap \<Rightarrow> addr \<Rightarrow> error + (addr \<times> heap)" where
  "deepcopy h l =
     (case deepcopy_states h [] (list_store h ! l) of
        Inl e \<Rightarrow> Inl e
      | Inr (ss', h', memo') \<Rightarrow>
          Inr (length (list_store h'), h'\<lparr>list_store := list_store h' @ [ss']\<rparr>))"

subsection \<open>The helper \<^verbatim>\<open>recursive_clone\<close>\<close>

text \<open>
  Modelled from the spec: \<^verbatim>\<open>recursive_clone\<close> of \<^verbatim>\<open>utils/myutil.py\<close>, which
  \<^verbatim>\<open>model.py\<close> imports and which is not among the sources. The spec gives it as
  a recursive clone that preserves the pair or single-tensor structure of each entry
  without sharing underlying storage: every tensor met is cloned, a pair is rebuilt from
  the clones of its two tensors, the list is rebuilt from the clones of its entries. An
  absent entry holds no tensor and stays absent.
\<close>

fun clone_state :: "heap \<Rightarrow> state \<Rightarrow> state \<times> heap" where
  "clone_state h SNone = (SNone, h)"
| "clone_state h (STensor a) = (let (a', h1) = tensor_clone h a in (STensor a', h1))"
| "clone_state h (STuple a b) =
     (let (a', h1) = tensor_clone h a; (b', h2) = tensor_clone h1 b
      in (STuple a' b', h2))"

fun clone_states :: "heap \<Rightarrow> state list \<Rightarrow> state list \<times> heap" where
  "clone_states h [] = ([], h)"
| "clone_states h (s # ss) =
     (let (s', h1) = clone_state h s; (ss', h2) = clone_states h1 ss
      in (s' # ss', h2))"

definition recursive_clone :: "heap \<Rightarrow> addr \<Rightarrow> error + (addr \<times> heap)" where
  "recursive_clone h l =
     (let (ss', h') = clone_states h (list_store h ! l)
      in Inr (length (list_store h'), h'\<lparr>list_store := list_store h' @ [ss']\<rparr>))"

section \<open>\<^verbatim>\<open>copy_states\<close>\<close>

text \<open>
  \<^verbatim>\<open>
  def copy_states(states):
      if states[0] is None:
          return copy.deepcopy(states)
      return recursive_clone(states)
  \<close>
  \<^verbatim>\<open>states[0]\<close> raises \<^verbatim>\<open>IndexError\<close> on an empty list; what the deep copy raises
  is raised on.
\<close>

definition copy_states :: "heap \<Rightarrow> addr \<Rightarrow> error + (addr \<times> heap)" where
  "copy_states h states =
     (case list_store h ! states of
        [] \<Rightarrow> Inl IndexError
      | s0 # _ \<Rightarrow> if s0 = SNone then deepcopy h states else recursive_clone h states)"

section \<open>The model classes\<close>

text \<open>
  The wrapped networks come from \<^verbatim>\<open>model/unet.py\<close>, which is not among the sources.
  A recurrent one (\<^verbatim>\<open>WNet\<close>, \<^verbatim>\<open>UNetFlow\<close>, \<^verbatim>\<open>UNetRecurrent\<close>) is held with the two
  attributes the wrappers read and write: \<^verbatim>\<open>states\<close>, a reference to a list object, and
  \<^verbatim>\<open>num_encoders\<close>. The rest of a network is the parameter \<open>'n\<close>.
\<close>

record 'n recurrent_net =
  states :: addr
  net_num_encoders :: int
  net_body :: 'n

record 'w wrapper =
  num_bins :: pyval
  num_encoders :: pyval
  wrapped :: 'w

datatype 'n model =
    WFlowNet "'n recurrent_net wrapper"
  | FlowNet "'n recurrent_net wrapper"
  | FlowNetNoRecur "'n wrapper"
  | E2VIDRecurrent "'n recurrent_net wrapper"
  | EVFlowNet "'n wrapper"

text \<open>\<^verbatim>\<open>[None] * n\<close>: a new list object; a count below one gives the empty list.\<close>

definition new_none_list :: "heap \<Rightarrow> int \<Rightarrow> addr \<times> heap" where
  "new_none_list h n = (length (list_store h), h\<lparr>list_store := list_store h @ [replicate (nat n) SNone]\<rparr>)"

definition reset_recurrent ::
  "heap \<Rightarrow> 'n recurrent_net wrapper \<Rightarrow> heap \<times> 'n recurrent_net wrapper" where
  "reset_recurrent h m =
     (let (l, h') = new_none_list h (net_num_encoders (wrapped m))
      in (h', m\<lparr>wrapped := (wrapped m)\<lparr>states := l\<rparr>\<rparr>))"

text \<open>
  \<^verbatim>\<open>reset_states\<close>, by class: the three recurrent wrappers store a fresh list of
  \<^verbatim>\<open>None\<close> in the wrapped network, the other two have the body \<^verbatim>\<open>pass\<close>.
\<close>

fun reset_states :: "heap \<Rightarrow> 'n model \<Rightarrow> error + (heap \<times> 'n model)" where
  "reset_states h (WFlowNet m) = (let (h', m') = reset_recurrent h m in Inr (h', WFlowNet m'))"
| "reset_states h (FlowNet m) = (let (h', m') = reset_recurrent h m in Inr (h', FlowNet m'))"
| "reset_states h (FlowNetNoRecur m) = Inr (h, FlowNetNoRecur m)"
| "reset_states h (E2VIDRecurrent m) =
     (let (h', m') = reset_recurrent h m in Inr (h', E2VIDRecurrent m'))"
| "reset_states h (EVFlowNet m) = Inr (h, EVFlowNet m)"

text \<open>
  The property \<^verbatim>\<open>states\<close>. The getter returns \<^verbatim>\<open>copy_states\<close> of the wrapped
  network's list. \<^verbatim>\<open>FlowNetNoRecur\<close> and \<^verbatim>\<open>EVFlowNet\<close> define no such property (and the
  spec gives a state sequence to the recurrent variants only): reading it is an
  \<^verbatim>\<open>AttributeError\<close>.
\<close>

fun states_getter :: "heap \<Rightarrow> 'n model \<Rightarrow> error + (addr \<times> heap)" where
  "states_getter h (WFlowNet m) = copy_states h (states (wrapped m))"
| "states_getter h (FlowNet m) = copy_states h (states (wrapped m))"
| "states_getter h (FlowNetNoRecur m) = Inl AttributeError"
| "states_getter h (E2VIDRecurrent m) = copy_states h (states (wrapped m))"
| "states_getter h (EVFlowNet m) = Inl AttributeError"

text \<open>The live list of a model: the reference its wrapped network holds.\<close>

fun live_states :: "'n model \<Rightarrow> addr option" where
  "live_states (WFlowNet m) = Some (states (wrapped m))"
| "live_states (FlowNet m) = Some (states (wrapped m))"
| "live_states (FlowNetNoRecur m) = None"
| "live_states (E2VIDRecurrent m) = Some (states (wrapped m))"
| "live_states (EVFlowNet m) = None"

text \<open>The \<^verbatim>\<open>num_encoders\<close> attribute of the wrapped network of a recurrent wrapper.\<close>

fun net_encoders :: "'n model \<Rightarrow> int option" where
  "net_encoders (WFlowNet m) = Some (net_num_encoders (wrapped m))"
| "net_encoders (FlowNet m) = Some (net_num_encoders (wrapped m))"
| "net_encoders (FlowNetNoRecur m) = None"
| "net_encoders (E2VIDRecurrent m) = Some (net_num_encoders (wrapped m))"
| "net_encoders (EVFlowNet m) = None"

text \<open>
  The setter: \<^verbatim>\<open>self.wnet.states = states\<close>. The reference given is stored as it is; nothing
  about the list is looked at.
\<close>

definition set_states :: "'n recurrent_net wrapper \<Rightarrow> addr \<Rightarrow> 'n recurrent_net wrapper" where
  "set_states m s = m\<lparr>wrapped := (wrapped m)\<lparr>states := s\<rparr>\<rparr>"

text \<open>Only the three recurrent wrappers define the setter; for the other two classes the
  assignment is no call of this module (\<open>None\<close>).\<close>

fun states_setter :: "'n model \<Rightarrow> addr \<Rightarrow> 'n model option" where
  "states_setter (WFlowNet m) s = Some (WFlowNet (set_states m s))"
| "states_setter (FlowNet m) s = Some (FlowNet (set_states m s))"
| "states_setter (FlowNetNoRecur m) s = None"
| "states_setter (E2VIDRecurrent m) s = Some (E2VIDRecurrent (set_states m s))"
| "states_setter (EVFlowNet m) s = None"

section \<open>\<^verbatim>\<open>EVFlowNet.__init__\<close>\<close>

definition EVFlowNet_kwargs :: "(string \<times> pyval) list" where
  "EVFlowNet_kwargs =
     [(''base_num_channels'', IntV 32),
      (''num_encoders'', IntV 4),
      (''num_residual_blocks'', IntV 2),
      (''num_output_channels'', IntV 2),
      (''skip_type'', StrV ''concat''),
      (''norm'', NoneV),
      (''use_upsample_conv'', BoolV True),
      (''kernel_size'', IntV 3),
      (''channel_multiplier'', IntV 2)]"

text \<open>\<^verbatim>\<open>d.update(other)\<close> on a dictionary object: every key of \<open>other\<close> is stored in \<open>d\<close>.\<close>

definition dict_update :: "heap \<Rightarrow> addr \<Rightarrow> (string \<times> pyval) list \<Rightarrow> heap" where
  "dict_update h d kvs = h\<lparr>dict_store := (dict_store h)[d := (dict_store h ! d) ++ map_of kvs]\<rparr>"

text \<open>\<^verbatim>\<open>d[k]\<close>: a missing key raises \<^verbatim>\<open>KeyError\<close>.\<close>

definition getitem :: "heap \<Rightarrow> addr \<Rightarrow> string \<Rightarrow> error + pyval" where
  "getitem h d k = (case (dict_store h ! d) k of None \<Rightarrow> Inl KeyError | Some v \<Rightarrow> Inr v)"

text \<open>
  The constructor updates the caller's dictionary object, reads two entries of it and
  hands the same object to the constructor of \<^verbatim>\<open>UNet\<close>, which is the parameter \<open>UNet\<close>
  (\<^verbatim>\<open>model/unet.py\<close> is not among the sources).
\<close>

definition EVFlowNet_init ::
  "(heap \<Rightarrow> addr \<Rightarrow> error + ('n \<times> heap)) \<Rightarrow> heap \<Rightarrow> addr \<Rightarrow> error + ('n wrapper \<times> heap)" where
  "EVFlowNet_init UNet h unet_kwargs =
     (let h1 = dict_update h unet_kwargs EVFlowNet_kwargs in
      case getitem h1 unet_kwargs ''num_bins'' of
        Inl e \<Rightarrow> Inl e
      | Inr nb \<Rightarrow>
          (case getitem h1 unet_kwargs ''num_encoders'' of
             Inl e \<Rightarrow> Inl e
           | Inr ne \<Rightarrow>
               (case UNet h1 unet_kwargs of
                  Inl e \<Rightarrow> Inl e
                | Inr (u, h2) \<Rightarrow> Inr (\<lparr>num_bins = nb, num_encoders = ne, wrapped = u\<rparr>, h2))))"

section \<open>\<^verbatim>\<open>forward\<close>\<close>

type_synonym output_dict = "string \<rightharpoonup> tensor"

text \<open>
  The forward pass of a wrapped network: it may fail, it returns its output, and it may
  change the store and the network (a recurrent network advances its state).
\<close>

type_synonym ('w, 'r) fwd = "heap \<Rightarrow> 'w \<Rightarrow> tensor \<Rightarrow> error + ('r \<times> heap \<times> 'w)"

record 'n nets =
  WNet_forward :: "('n recurrent_net, output_dict) fwd"
  UNetFlow_forward :: "('n recurrent_net, output_dict) fwd"
  UNetFlowNoRecur_forward :: "('n, output_dict) fwd"
  UNetRecurrent_forward :: "('n recurrent_net, output_dict) fwd"
  UNet_forward :: "('n, tensor) fwd"

text \<open>\<^verbatim>\<open>0 * x\<close> on one element: zero on a finite value, not a number otherwise.\<close>

fun mul_zero :: "fval \<Rightarrow> fval" where
  "mul_zero (Fin x) = Fin (0 * x)"
| "mul_zero PInf = NaN"
| "mul_zero NInf = NaN"
| "mul_zero NaN = NaN"

text \<open>Whether an element is a finite number.\<close>

fun is_fin :: "fval \<Rightarrow> bool" where
  "is_fin (Fin x) = True"
| "is_fin PInf = False"
| "is_fin NInf = False"
| "is_fin NaN = False"

text \<open>\<^verbatim>\<open>0 * t\<close>: a new tensor of the same shape.\<close>

definition scalar_mul_zero :: "tensor \<Rightarrow> tensor" where
  "scalar_mul_zero t = \<lparr>shape = shape t, elems = map mul_zero (elems t)\<rparr>"

text \<open>
  \<^verbatim>\<open>t[..., 0:1, :, :]\<close>: the slice \<^verbatim>\<open>0:1\<close> of the third dimension from the end, all of the
  last two, all of the leading ones. A tensor of fewer than three dimensions has too few
  for the three indices (\<^verbatim>\<open>IndexError\<close>). The elements are stored row by row, so each of
  the leading blocks of \<open>c * hh * w\<close> elements keeps its first \<open>min 1 c * hh * w\<close>.
\<close>

definition first_channel :: "tensor \<Rightarrow> error + tensor" where
  "first_channel t =
     (case rev (shape t) of
        w # hh # c # pre \<Rightarrow>
          Inr \<lparr>shape = rev pre @ [min 1 c, hh, w],
               elems = concat (map (\<lambda>i. take (min 1 c * hh * w) (drop (i * (c * hh * w)) (elems t)))
                                   [0..<prod_list pre])\<rparr>
      | _ \<Rightarrow> Inl IndexError)"

text \<open>The three recurrent wrappers and \<^verbatim>\<open>FlowNetNoRecur\<close> return what the wrapped network
  returns.\<close>

definition delegate :: "('w, 'r) fwd \<Rightarrow> heap \<Rightarrow> 'w wrapper \<Rightarrow> tensor \<Rightarrow> error + ('r \<times> heap \<times> 'w wrapper)" where
  "delegate f h m event_tensor =
     (case f h (wrapped m) event_tensor of
        Inl e \<Rightarrow> Inl e
      | Inr (output_dict, h', w') \<Rightarrow> Inr (output_dict, h', m\<lparr>wrapped := w'\<rparr>))"

text \<open>
  \<^verbatim>\<open>
  flow = self.unet.forward(event_tensor)
  return {'flow': flow, 'image': 0 * flow[..., 0:1, :, :]}
  \<close>
\<close>

definition EVFlowNet_forward ::
  "('n, tensor) fwd \<Rightarrow> heap \<Rightarrow> 'n wrapper \<Rightarrow> tensor \<Rightarrow> error + (output_dict \<times> heap \<times> 'n wrapper)" where
  "EVFlowNet_forward f h m event_tensor =
     (case delegate f h m event_tensor of
        Inl e \<Rightarrow> Inl e
      | Inr (flow, h', m') \<Rightarrow>
          (case first_channel flow of
             Inl e \<Rightarrow> Inl e
           | Inr sl \<Rightarrow> Inr ([''flow'' \<mapsto> flow, ''image'' \<mapsto> scalar_mul_zero sl], h', m')))"

definition lift_model ::
  "('a \<Rightarrow> 'n model) \<Rightarrow> error + (output_dict \<times> heap \<times> 'a) \<Rightarrow> error + (output_dict \<times> heap \<times> 'n model)" where
  "lift_model C r = (case r of Inl e \<Rightarrow> Inl e | Inr (d, h', m') \<Rightarrow> Inr (d, h', C m'))"

fun forward ::
  "'n nets \<Rightarrow> heap \<Rightarrow> 'n model \<Rightarrow> tensor \<Rightarrow> error + (output_dict \<times> heap \<times> 'n model)" where
  "forward N h (WFlowNet m) x = lift_model WFlowNet (delegate (WNet_forward N) h m x)"
| "forward N h (FlowNet m) x = lift_model FlowNet (delegate (UNetFlow_forward N) h m x)"
| "forward N h (FlowNetNoRecur m) x =
     lift_model FlowNetNoRecur (delegate (UNetFlowNoRecur_forward N) h m x)"
| "forward N h (E2VIDRecurrent m) x =
     lift_model E2VIDRecurrent (delegate (UNetRecurrent_forward N) h m x)"
| "forward N h (EVFlowNet m) x = lift_model EVFlowNet (EVFlowNet_forward (UNet_forward N) h m x)"


section \<open>Auxiliary notions\<close>

text \<open>
  The invariant of the memo while a deep copy runs, \<open>n0\<close> being the number of tensors
  allocated when the copy began: every remembered pair leads from a tensor that existed
  then to a tensor allocated since, with the same contents.
\<close>

definition memo_inv :: "nat \<Rightarrow> heap \<Rightarrow> memo \<Rightarrow> bool" where
  "memo_inv n0 h memo =
     (\<forall>(a, a') \<in> set memo. a < n0 \<and> n0 \<le> a' \<and> a' < length (tensor_store h)
        \<and> tensor_store h ! a' = tensor_store h ! a)"

text \<open>The kind of an entry: absent, a single tensor, or a pair.\<close>

datatype kind = Absent | Single | Paired

fun kind_of :: "state \<Rightarrow> kind" where
  "kind_of SNone = Absent"
| "kind_of (STensor a) = Single"
| "kind_of (STuple a b) = Paired"

text \<open>
  A small store for the concrete instances below: two tensors, both graph leaves, five
  list objects (an
  LSTM state, a list that starts absent and goes on populated, a list that starts
  populated and goes on absent, an empty list, a list of two absent entries), and a
  dictionary of keyword arguments.
\<close>

definition ex_heap :: heap where
  "ex_heap =
     \<lparr>tensor_store = [\<lparr>shape = [1], elems = [Fin 1]\<rparr>, \<lparr>shape = [1], elems = [Fin 2]\<rparr>],
      list_store = [[STuple 0 1], [SNone, STensor 0], [STensor 1, SNone], [], [SNone, SNone]],
      dict_store = [[''num_bins'' \<mapsto> IntV 5, ''num_encoders'' \<mapsto> IntV 7]],
      requires_grad = (\<lambda>a. False), is_leaf = (\<lambda>a. True), grad_enabled = True\<rparr>"

text \<open>
  A store as training leaves it: one tensor that is an inner node of a gradient graph,
  and a list object that starts absent and holds that tensor.
\<close>

definition ex_grad_heap :: heap where
  "ex_grad_heap =
     \<lparr>tensor_store = [\<lparr>shape = [1], elems = [Fin 1]\<rparr>],
      list_store = [[SNone, STensor 0]],
      dict_store = [],
      requires_grad = (\<lambda>a. True), is_leaf = (\<lambda>a. False), grad_enabled = True\<rparr>"

definition ex_wrapper :: "addr \<Rightarrow> int \<Rightarrow> unit recurrent_net wrapper" where
  "ex_wrapper l n =
     \<lparr>num_bins = IntV 5, num_encoders = IntV n,
      wrapped = \<lparr>states = l, net_num_encoders = n, net_body = ()\<rparr>\<rparr>"

definition ex_plain :: "unit wrapper" where
  "ex_plain = \<lparr>num_bins = IntV 5, num_encoders = IntV 4, wrapped = ()\<rparr>"

text \<open>A constructor of the wrapped network that builds a network and leaves the store
  alone.\<close>

definition ex_UNet :: "heap \<Rightarrow> addr \<Rightarrow> error + (unit \<times> heap)" where
  "ex_UNet h d = Inr ((), h)"

text \<open>A forward pass that returns its input as the flow and changes nothing.\<close>

definition ex_fwd :: "(unit, tensor) fwd" where
  "ex_fwd h u x = Inr (x, h, u)"

section \<open>Lemmas on copying\<close>

lemma read_state_ext:
  assumes "tensor_store h' = tensor_store h @ ts" "\<forall>a \<in> refs_of s. a < length (tensor_store h)"
  shows "read_state h' s = read_state h s"
  using assms by (cases s) (simp_all add: nth_append)

lemma clone_state_props:
  assumes "clone_state h s = (s', h1)" "\<forall>a \<in> refs_of s. a < n0" "n0 \<le> length (tensor_store h)"
  shows "(\<exists>ts. tensor_store h1 = tensor_store h @ ts) \<and> list_store h1 = list_store h
       \<and> dict_store h1 = dict_store h \<and> read_state h1 s' = read_state h s
       \<and> (\<forall>a \<in> refs_of s'. n0 \<le> a \<and> a < length (tensor_store h1))"
  using assms by (cases s) (auto simp: tensor_clone_def Let_def nth_append split: prod.splits)

lemma clone_states_props:
  assumes "clone_states h ss = (ss', h')" "\<forall>a \<in> refs ss. a < n0" "n0 \<le> length (tensor_store h)"
  shows "(\<exists>ts. tensor_store h' = tensor_store h @ ts) \<and> list_store h' = list_store h
       \<and> dict_store h' = dict_store h \<and> map (read_state h') ss' = map (read_state h) ss
       \<and> (\<forall>a \<in> refs ss'. n0 \<le> a \<and> a < length (tensor_store h'))"
  using assms
proof (induction ss arbitrary: h ss' h')
  case Nil
  then show ?case by (simp add: refs_def)
next
  case (Cons s ss)
  obtain s1 h1 where s1: "clone_state h s = (s1, h1)" by (cases "clone_state h s")
  obtain ss2 h2 where s2: "clone_states h1 ss = (ss2, h2)" by (cases "clone_states h1 ss")
  from Cons.prems(1) s1 s2 have eq: "ss' = s1 # ss2" "h' = h2" by simp_all
  have r1: "\<forall>a \<in> refs_of s. a < n0" and r2: "\<forall>a \<in> refs ss. a < n0"
    using Cons.prems(2) by (simp_all add: refs_def)
  note p1 = clone_state_props [OF s1 r1 Cons.prems(3)]
  from p1 obtain ts1 where t1: "tensor_store h1 = tensor_store h @ ts1" by blast
  have n1: "n0 \<le> length (tensor_store h1)" using t1 Cons.prems(3) by simp
  note p2 = Cons.IH [OF s2 r2 n1]
  from p2 obtain ts2 where t2: "tensor_store h2 = tensor_store h1 @ ts2" by blast
  have a: "read_state h2 s1 = read_state h s"
    using read_state_ext [OF t2, of s1] p1 by simp
  have b: "map (read_state h2) ss2 = map (read_state h) ss"
  proof -
    have "map (read_state h1) ss = map (read_state h) ss"
    proof (rule map_cong [OF refl])
      fix x assume "x \<in> set ss"
      with r2 have "\<forall>a \<in> refs_of x. a < n0" by (auto simp: refs_def)
      with Cons.prems(3) have "\<forall>a \<in> refs_of x. a < length (tensor_store h)" by fastforce
      from read_state_ext [OF t1 this] show "read_state h1 x = read_state h x" .
    qed
    with p2 show ?thesis by simp
  qed
  have c: "\<forall>a \<in> refs (s1 # ss2). n0 \<le> a \<and> a < length (tensor_store h2)"
    using p1 p2 t2 by (auto simp: refs_def)
  show ?case using eq a b c p1 p2 t1 t2 by auto
qed

lemma memo_inv_ext:
  assumes "memo_inv n0 h memo" "tensor_store h' = tensor_store h @ ts" "n0 \<le> length (tensor_store h)"
  shows "memo_inv n0 h' memo"
  using assms by (fastforce simp: memo_inv_def nth_append)

lemma deepcopy_tensor_props:
  assumes "is_leaf h a" "a < n0" "n0 \<le> length (tensor_store h)" "memo_inv n0 h memo"
  shows "\<exists>a' h1 memo1. deepcopy_tensor h memo a = Inr (a', h1, memo1)
       \<and> (\<exists>ts. tensor_store h1 = tensor_store h @ ts) \<and> list_store h1 = list_store h
       \<and> dict_store h1 = dict_store h \<and> memo_inv n0 h1 memo1
       \<and> n0 \<le> a' \<and> a' < length (tensor_store h1) \<and> tensor_store h1 ! a' = tensor_store h ! a
       \<and> (\<forall>b < n0. is_leaf h1 b = is_leaf h b)"
proof (cases "map_of memo a")
  case None
  let ?n = "length (tensor_store h)"
  let ?h1 = "h\<lparr>tensor_store := tensor_store h @ [tensor_store h ! a],
               requires_grad := (requires_grad h)(?n := requires_grad h a),
               is_leaf := (is_leaf h)(?n := True)\<rparr>"
  have d: "deepcopy_tensor h memo a = Inr (?n, ?h1, (a, ?n) # memo)"
    using None assms(1) by (simp add: deepcopy_tensor_def Let_def)
  have t: "tensor_store ?h1 = tensor_store h @ [tensor_store h ! a]" by simp
  have m: "memo_inv n0 ?h1 ((a, ?n) # memo)"
    using assms(2,3,4) by (fastforce simp: memo_inv_def nth_append)
  have v: "tensor_store ?h1 ! ?n = tensor_store h ! a" by simp
  have l: "\<forall>b < n0. is_leaf ?h1 b = is_leaf h b" using assms(3) by simp
  from d t m v l assms(3) show ?thesis by simp
next
  case (Some b)
  then have "(a, b) \<in> set memo" by (rule map_of_SomeD)
  with assms(4) have "n0 \<le> b \<and> b < length (tensor_store h)
      \<and> tensor_store h ! b = tensor_store h ! a"
    by (auto simp: memo_inv_def)
  moreover have "deepcopy_tensor h memo a = Inr (b, h, memo)"
    using Some assms(1) by (simp add: deepcopy_tensor_def)
  ultimately show ?thesis using assms(4) by simp
qed

lemma deepcopy_state_props:
  assumes "\<forall>a \<in> refs_of s. is_leaf h a" "\<forall>a \<in> refs_of s. a < n0"
    "n0 \<le> length (tensor_store h)" "memo_inv n0 h memo"
  shows "\<exists>s' h1 memo1. deepcopy_state h memo s = Inr (s', h1, memo1)
       \<and> (\<exists>ts. tensor_store h1 = tensor_store h @ ts) \<and> list_store h1 = list_store h
       \<and> dict_store h1 = dict_store h \<and> memo_inv n0 h1 memo1
       \<and> read_state h1 s' = read_state h s
       \<and> (\<forall>a \<in> refs_of s'. n0 \<le> a \<and> a < length (tensor_store h1))
       \<and> (\<forall>b < n0. is_leaf h1 b = is_leaf h b)"
proof (cases s)
  case SNone
  with assms show ?thesis by simp
next
  case (STensor a)
  with assms have "is_leaf h a" "a < n0" by simp_all
  from deepcopy_tensor_props [OF this assms(3,4)] obtain a' ha ma ts where
    d: "deepcopy_tensor h memo a = Inr (a', ha, ma)"
    and p: "tensor_store ha = tensor_store h @ ts" "list_store ha = list_store h"
      "dict_store ha = dict_store h" "memo_inv n0 ha ma" "n0 \<le> a'"
      "a' < length (tensor_store ha)" "tensor_store ha ! a' = tensor_store h ! a"
      "\<forall>b < n0. is_leaf ha b = is_leaf h b"
    by blast
  have "deepcopy_state h memo s = Inr (STensor a', ha, ma)" using STensor d by simp
  with p STensor show ?thesis by simp
next
  case (STuple a b)
  with assms have ab: "is_leaf h a" "a < n0" "is_leaf h b" "b < n0" by simp_all
  from deepcopy_tensor_props [OF ab(1,2) assms(3,4)] obtain a' ha ma ts1 where
    d1: "deepcopy_tensor h memo a = Inr (a', ha, ma)"
    and p1: "tensor_store ha = tensor_store h @ ts1" "list_store ha = list_store h"
      "dict_store ha = dict_store h" "memo_inv n0 ha ma" "n0 \<le> a'"
      "a' < length (tensor_store ha)" "tensor_store ha ! a' = tensor_store h ! a"
      "\<forall>b < n0. is_leaf ha b = is_leaf h b"
    by blast
  have n1: "n0 \<le> length (tensor_store ha)" using p1(1) assms(3) by simp
  have lb: "is_leaf ha b" using p1(8) ab(3,4) by simp
  from deepcopy_tensor_props [OF lb ab(4) n1 p1(4)] obtain b' hb mb ts2 where
    d2: "deepcopy_tensor ha ma b = Inr (b', hb, mb)"
    and p2: "tensor_store hb = tensor_store ha @ ts2" "list_store hb = list_store ha"
      "dict_store hb = dict_store ha" "memo_inv n0 hb mb" "n0 \<le> b'"
      "b' < length (tensor_store hb)" "tensor_store hb ! b' = tensor_store ha ! b"
      "\<forall>c < n0. is_leaf hb c = is_leaf ha c"
    by blast
  have e: "deepcopy_state h memo s = Inr (STuple a' b', hb, mb)"
    using STuple d1 d2 by simp
  have t: "tensor_store hb = tensor_store h @ (ts1 @ ts2)" using p1(1) p2(1) by simp
  have va: "tensor_store hb ! a' = tensor_store h ! a"
    using p1(6,7) p2(1) by (simp add: nth_append)
  have vb: "tensor_store hb ! b' = tensor_store h ! b"
    using p2(7) p1(1) ab(4) assms(3) by (simp add: nth_append)
  have la: "a' < length (tensor_store hb)" using p1(6) p2(1) by simp
  have lf: "\<forall>c < n0. is_leaf hb c = is_leaf h c" using p1(8) p2(8) by simp
  have r: "read_state hb (STuple a' b') = read_state h s" using STuple va vb by simp
  have f: "\<forall>c \<in> refs_of (STuple a' b'). n0 \<le> c \<and> c < length (tensor_store hb)"
    using p1(5) p2(5,6) la by simp
  from e t p1(2,3) p2(2,3,4) r f lf show ?thesis by (metis (no_types))
qed

lemma deepcopy_states_props:
  assumes "\<forall>a \<in> refs ss. is_leaf h a" "\<forall>a \<in> refs ss. a < n0"
    "n0 \<le> length (tensor_store h)" "memo_inv n0 h memo"
  shows "\<exists>ss' h' memo'. deepcopy_states h memo ss = Inr (ss', h', memo')
       \<and> (\<exists>ts. tensor_store h' = tensor_store h @ ts) \<and> list_store h' = list_store h
       \<and> dict_store h' = dict_store h \<and> map (read_state h') ss' = map (read_state h) ss
       \<and> (\<forall>a \<in> refs ss'. n0 \<le> a \<and> a < length (tensor_store h'))"
  using assms
proof (induction ss arbitrary: h memo)
  case Nil
  then show ?case by (simp add: refs_def)
next
  case (Cons s ss)
  have l1: "\<forall>a \<in> refs_of s. is_leaf h a" and l2: "\<forall>a \<in> refs ss. is_leaf h a"
    using Cons.prems(1) by (simp_all add: refs_def)
  have r1: "\<forall>a \<in> refs_of s. a < n0" and r2: "\<forall>a \<in> refs ss. a < n0"
    using Cons.prems(2) by (simp_all add: refs_def)
  from deepcopy_state_props [OF l1 r1 Cons.prems(3,4)] obtain s1 h1 m1 ts1 where
    s1: "deepcopy_state h memo s = Inr (s1, h1, m1)"
    and p1: "tensor_store h1 = tensor_store h @ ts1" "list_store h1 = list_store h"
      "dict_store h1 = dict_store h" "memo_inv n0 h1 m1" "read_state h1 s1 = read_state h s"
      "\<forall>a \<in> refs_of s1. n0 \<le> a \<and> a < length (tensor_store h1)"
      "\<forall>b < n0. is_leaf h1 b = is_leaf h b"
    by blast
  have n1: "n0 \<le> length (tensor_store h1)" using p1(1) Cons.prems(3) by simp
  have l2': "\<forall>a \<in> refs ss. is_leaf h1 a" using l2 r2 p1(7) by simp
  from Cons.IH [OF l2' r2 n1 p1(4)] obtain ss2 h2 m2 ts2 where
    s2: "deepcopy_states h1 m1 ss = Inr (ss2, h2, m2)"
    and p2: "tensor_store h2 = tensor_store h1 @ ts2" "list_store h2 = list_store h1"
      "dict_store h2 = dict_store h1" "map (read_state h2) ss2 = map (read_state h1) ss"
      "\<forall>a \<in> refs ss2. n0 \<le> a \<and> a < length (tensor_store h2)"
    by blast
  have e: "deepcopy_states h memo (s # ss) = Inr (s1 # ss2, h2, m2)" using s1 s2 by simp
  have t: "tensor_store h2 = tensor_store h @ (ts1 @ ts2)" using p1(1) p2(1) by simp
  have a: "read_state h2 s1 = read_state h s"
    using read_state_ext [OF p2(1), of s1] p1(5,6) by simp
  have "map (read_state h1) ss = map (read_state h) ss"
  proof (rule map_cong [OF refl])
    fix x assume "x \<in> set ss"
    with r2 have "\<forall>a \<in> refs_of x. a < n0" by (auto simp: refs_def)
    with Cons.prems(3) have "\<forall>a \<in> refs_of x. a < length (tensor_store h)" by fastforce
    from read_state_ext [OF p1(1) this] show "read_state h1 x = read_state h x" .
  qed
  with p2(4) a have b: "map (read_state h2) (s1 # ss2) = map (read_state h) (s # ss)" by simp
  have c: "\<forall>a \<in> refs (s1 # ss2). n0 \<le> a \<and> a < length (tensor_store h2)"
    using p1(6) p2(1,5) by (auto simp: refs_def)
  from e t p1(2,3) p2(2,3) b c show ?case by (metis (no_types))
qed

lemma copy_states_fresh:
  assumes "wf_list h l" "list_store h ! l \<noteq> []"
    and "hd (list_store h ! l) = SNone \<longrightarrow> (\<forall>a \<in> refs (list_store h ! l). is_leaf h a)"
  shows "\<exists>ss' h1. copy_states h l = Inr (length (list_store h), h1\<lparr>list_store := list_store h @ [ss']\<rparr>)
       \<and> (\<exists>ts. tensor_store h1 = tensor_store h @ ts) \<and> dict_store h1 = dict_store h
       \<and> map (read_state h1) ss' = map (read_state h) (list_store h ! l)
       \<and> (\<forall>a \<in> refs ss'. length (tensor_store h) \<le> a \<and> a < length (tensor_store h1))"
proof -
  let ?ss = "list_store h ! l"
  from assms(1) have r: "\<forall>a \<in> refs ?ss. a < length (tensor_store h)"
    by (simp add: wf_list_def wf_states_def)
  from assms(2) obtain s0 rest where ss: "?ss = s0 # rest" by (cases ?ss) auto
  show ?thesis
  proof (cases "s0 = SNone")
    case True
    with assms(3) ss have lf: "\<forall>a \<in> refs ?ss. is_leaf h a" by simp
    have "memo_inv (length (tensor_store h)) h []" by (simp add: memo_inv_def)
    from deepcopy_states_props [OF lf r le_refl this] obtain ss' h1 m1 where
      d: "deepcopy_states h [] ?ss = Inr (ss', h1, m1)"
      and p: "(\<exists>ts. tensor_store h1 = tensor_store h @ ts) \<and> list_store h1 = list_store h
       \<and> dict_store h1 = dict_store h \<and> map (read_state h1) ss' = map (read_state h) ?ss
       \<and> (\<forall>a \<in> refs ss'. length (tensor_store h) \<le> a \<and> a < length (tensor_store h1))"
      by blast
    have "copy_states h l = Inr (length (list_store h), h1\<lparr>list_store := list_store h @ [ss']\<rparr>)"
      using True ss d p by (simp add: copy_states_def deepcopy_def)
    with p show ?thesis by blast
  next
    case False
    obtain ss' h1 where d: "clone_states h ?ss = (ss', h1)"
      by (cases "clone_states h ?ss")
    from clone_states_props [OF d r le_refl]
    have p: "(\<exists>ts. tensor_store h1 = tensor_store h @ ts) \<and> list_store h1 = list_store h
       \<and> dict_store h1 = dict_store h \<and> map (read_state h1) ss' = map (read_state h) ?ss
       \<and> (\<forall>a \<in> refs ss'. length (tensor_store h) \<le> a \<and> a < length (tensor_store h1))" .
    have "copy_states h l = Inr (length (list_store h), h1\<lparr>list_store := list_store h @ [ss']\<rparr>)"
      using False ss d p by (simp add: copy_states_def recursive_clone_def)
    with p show ?thesis by blast
  qed
qed

lemma read_state_list_store:
  "read_state (h\<lparr>list_store := x\<rparr>) s = read_state h s"
  by (cases s) simp_all

lemma read_states_setitem_other:
  assumes "setitem h r i v = Inr h''" "r \<noteq> l"
  shows "read_states h'' l = read_states h l"
  using assms
  by (auto simp: setitem_def read_states_def read_state_list_store split: if_splits)

lemma read_state_tensor_write:
  assumes "a \<notin> refs_of s"
  shows "read_state (tensor_write h a t) s = read_state h s"
  using assms by (cases s) (simp_all add: tensor_write_def)

lemma read_states_tensor_write_other:
  assumes "a \<notin> refs (list_store h ! l)"
  shows "read_states (tensor_write h a t) l = read_states h l"
proof -
  have "list_store (tensor_write h a t) = list_store h" by (simp add: tensor_write_def)
  moreover have "map (read_state (tensor_write h a t)) (list_store h ! l)
               = map (read_state h) (list_store h ! l)"
    using assms by (intro map_cong [OF refl] read_state_tensor_write) (auto simp: refs_def)
  ultimately show ?thesis by (simp add: read_states_def)
qed

lemma copy_states_independent:
  assumes "wf_list h l" "list_store h ! l \<noteq> []"
    and "hd (list_store h ! l) = SNone \<longrightarrow> (\<forall>a \<in> refs (list_store h ! l). is_leaf h a)"
  shows "\<exists>r h'. copy_states h l = Inr (r, h') \<and> r \<noteq> l
       \<and> list_store h' = list_store h @ [list_store h' ! r]
       \<and> length (list_store h' ! r) = length (list_store h ! l)
       \<and> read_states h' r = read_states h l
       \<and> read_states h' l = read_states h l
       \<and> refs (list_store h' ! r) \<inter> refs (list_store h' ! l) = {}
       \<and> wf_list h' r \<and> wf_list h' l
       \<and> (\<forall>a < length (tensor_store h). tensor_store h' ! a = tensor_store h ! a)
       \<and> (\<forall>a \<in> refs (list_store h' ! r). length (tensor_store h) \<le> a)"
proof -
  from copy_states_fresh [OF assms] obtain ss' h1 ts where
    c: "copy_states h l = Inr (length (list_store h), h1\<lparr>list_store := list_store h @ [ss']\<rparr>)"
    and t: "tensor_store h1 = tensor_store h @ ts"
    and v: "map (read_state h1) ss' = map (read_state h) (list_store h ! l)"
    and f: "\<forall>a \<in> refs ss'. length (tensor_store h) \<le> a \<and> a < length (tensor_store h1)"
    by blast
  let ?r = "length (list_store h)"
  let ?h' = "h1\<lparr>list_store := list_store h @ [ss']\<rparr>"
  from assms(1) have l: "l < ?r" and w: "\<forall>a \<in> refs (list_store h ! l). a < length (tensor_store h)"
    by (simp_all add: wf_list_def wf_states_def)
  have lr: "list_store ?h' ! ?r = ss'" by simp
  have ll: "list_store ?h' ! l = list_store h ! l" using l by (simp add: nth_append)
  note rs = read_state_list_store
  have v1: "read_states ?h' ?r = read_states h l"
    using v lr by (simp add: read_states_def rs cong: map_cong)
  have "map (read_state h1) (list_store h ! l) = map (read_state h) (list_store h ! l)"
  proof (rule map_cong [OF refl])
    fix x assume "x \<in> set (list_store h ! l)"
    with w have "\<forall>a \<in> refs_of x. a < length (tensor_store h)" by (auto simp: refs_def)
    from read_state_ext [OF t this] show "read_state h1 x = read_state h x" .
  qed
  then have v2: "read_states ?h' l = read_states h l"
    using ll by (simp add: read_states_def rs cong: map_cong)
  have d: "refs (list_store ?h' ! ?r) \<inter> refs (list_store ?h' ! l) = {}"
    using f w lr ll by fastforce
  have w1: "wf_list ?h' ?r" using f by (simp add: wf_list_def wf_states_def)
  have w2: "wf_list ?h' l" using w l t ll by (auto simp: wf_list_def wf_states_def)
  have len: "length (list_store ?h' ! ?r) = length (list_store h ! l)"
    using arg_cong [OF v, of length] by simp
  have old: "\<forall>a < length (tensor_store h). tensor_store ?h' ! a = tensor_store h ! a"
    using t by (simp add: nth_append)
  have fr: "\<forall>a \<in> refs (list_store ?h' ! ?r). length (tensor_store h) \<le> a"
    using f by simp
  have ne: "?r \<noteq> l" using l by simp
  have app: "list_store ?h' = list_store h @ [list_store ?h' ! ?r]" by simp
  show ?thesis
    using c ne app len v1 v2 d w1 w2 old fr by blast
qed

lemma states_getter_live:
  assumes "live_states m = Some l"
  shows "states_getter h m = copy_states h l"
  using assms by (cases m) simp_all

lemma kind_of_read_state:
  assumes "read_state h' s' = read_state h s"
  shows "kind_of s' = kind_of s"
  using assms by (cases s; cases s') simp_all

lemma kinds_of_read_states:
  assumes "map (read_state h') ss' = map (read_state h) ss"
  shows "map kind_of ss' = map kind_of ss"
proof -
  from assms have len: "length ss' = length ss" by (rule map_eq_imp_length_eq)
  show ?thesis
  proof (rule nth_equalityI)
    show "length (map kind_of ss') = length (map kind_of ss)" using len by simp
  next
    fix i assume "i < length (map kind_of ss')"
    then have i: "i < length ss'" "i < length ss" using len by simp_all
    from assms have "map (read_state h') ss' ! i = map (read_state h) ss ! i" by simp
    with i have "read_state h' (ss' ! i) = read_state h (ss ! i)" by simp
    from kind_of_read_state [OF this] i show "map kind_of ss' ! i = map kind_of ss ! i" by simp
  qed
qed

lemma deepcopy_states_all_none:
  assumes "\<forall>s \<in> set ss. s = SNone"
  shows "deepcopy_states h memo ss = Inr (ss, h, memo)"
  using assms by (induction ss) simp_all

lemma deepcopy_all_none:
  assumes "\<forall>s \<in> set (list_store h ! l). s = SNone"
  shows "deepcopy h l = Inr (length (list_store h), h\<lparr>list_store := list_store h @ [list_store h ! l]\<rparr>)"
  using deepcopy_states_all_none [OF assms] by (simp add: deepcopy_def)

lemma states_setter_recurrent:
  assumes "live_states m = Some l"
  shows "\<exists>m'. states_setter m s = Some m' \<and> live_states m' = Some s
           \<and> net_encoders m' = net_encoders m"
  using assms by (cases m) (simp_all add: set_states_def)

lemma reset_recurrent_live:
  assumes "net_encoders m = Some n"
  shows "\<exists>m1. reset_states h m = Inr (h\<lparr>list_store := list_store h @ [replicate (nat n) SNone]\<rparr>, m1)
           \<and> live_states m1 = Some (length (list_store h)) \<and> net_encoders m1 = Some n"
  using assms by (cases m) (auto simp: reset_recurrent_def new_none_list_def)

section \<open>Lemmas on the keyword arguments\<close>

lemma EVFlowNet_kwargs_keys:
  "map fst EVFlowNet_kwargs =
     [''base_num_channels'', ''num_encoders'', ''num_residual_blocks'', ''num_output_channels'',
      ''skip_type'', ''norm'', ''use_upsample_conv'', ''kernel_size'', ''channel_multiplier'']"
  by (simp add: EVFlowNet_kwargs_def)

lemma EVFlowNet_kwargs_distinct: "distinct (map fst EVFlowNet_kwargs)"
  unfolding EVFlowNet_kwargs_keys by simp

lemma dict_update_lookup:
  assumes "d < length (dict_store h)"
  shows "dict_store (dict_update h d kvs) ! d = (dict_store h ! d) ++ map_of kvs"
  using assms by (simp add: dict_update_def)

section \<open>Lemmas on the channel slice\<close>

lemma mul_zero_cases: "mul_zero e = (if is_fin e then Fin 0 else NaN)"
  by (cases e) simp_all

lemma first_channel_shape:
  assumes "shape t = pre @ [c, hh, w]"
  shows "\<exists>sl. first_channel t = Inr sl \<and> shape sl = pre @ [min 1 c, hh, w]
           \<and> set (elems sl) \<subseteq> set (elems t)"
proof -
  have r: "rev (shape t) = w # hh # c # rev pre" using assms by simp
  let ?sl = "\<lparr>shape = rev (rev pre) @ [min 1 c, hh, w],
              elems = concat (map (\<lambda>i. take (min 1 c * hh * w) (drop (i * (c * hh * w)) (elems t)))
                                  [0..<prod_list (rev pre)])\<rparr>"
  have f: "first_channel t = Inr ?sl" by (simp add: first_channel_def r)
  have "set (elems ?sl) \<subseteq> set (elems t)"
    by (auto dest!: in_set_takeD in_set_dropD)
  with f show ?thesis by simp
qed

lemma first_channel_length:
  assumes "shape t = pre @ [c, hh, w]" "length (elems t) = prod_list (shape t)"
    "first_channel t = Inr sl"
  shows "length (elems sl) = prod_list (shape sl)"
proof -
  let ?n = "prod_list pre" and ?blk = "c * hh * w" and ?keep = "min 1 c * hh * w"
  have r: "rev (shape t) = w # hh # c # rev pre" using assms(1) by simp
  from assms(3) have sl: "sl = \<lparr>shape = pre @ [min 1 c, hh, w],
              elems = concat (map (\<lambda>i. take ?keep (drop (i * ?blk) (elems t))) [0..<?n])\<rparr>"
    by (simp add: first_channel_def r)
  have L: "length (elems t) = ?n * ?blk" using assms(1,2) by simp
  have kb: "?keep \<le> ?blk" by (simp add: mult_le_mono1)
  have each: "length (take ?keep (drop (i * ?blk) (elems t))) = ?keep" if "i < ?n" for i
  proof -
    from that have "Suc i \<le> ?n" by simp
    then have "Suc i * ?blk \<le> ?n * ?blk" by (rule mult_le_mono1)
    then have "?blk \<le> ?n * ?blk - i * ?blk" by simp
    with kb have "?keep \<le> ?n * ?blk - i * ?blk" by (rule order_trans)
    then have le: "?keep \<le> length (elems t) - i * ?blk" unfolding L .
    show ?thesis unfolding length_take length_drop using le by (rule min_absorb2)
  qed
  have meq: "map (\<lambda>i. length (take ?keep (drop (i * ?blk) (elems t)))) [0..<?n]
        = map (\<lambda>i. ?keep) [0..<?n]"
  proof (rule map_cong [OF refl])
    fix i assume "i \<in> set [0..<?n]"
    then have "i < ?n" by simp
    from each [OF this]
    show "length (take ?keep (drop (i * ?blk) (elems t))) = ?keep" .
  qed
  have "length (elems sl)
        = sum_list (map (\<lambda>i. length (take ?keep (drop (i * ?blk) (elems t)))) [0..<?n])"
    unfolding sl by (simp only: tensor.simps length_concat map_map comp_def)
  also have "\<dots> = sum_list (map (\<lambda>i. ?keep) [0..<?n])"
    by (rule arg_cong [OF meq])
  also have "\<dots> = ?n * ?keep" by (simp add: sum_list_triv)
  finally show ?thesis by (simp add: sl)
qed

lemma first_channel_example: "first_channel \<lparr>shape = [1, 2, 1, 1], elems = [PInf, Fin 1]\<rparr>
   = Inr \<lparr>shape = [1, 1, 1, 1], elems = [PInf]\<rparr>"
  by (simp add: first_channel_def)

section \<open>Lemmas on the forward pass\<close>

lemma forward_returns_wrapped_output:
  "(WNet_forward N h (wrapped m) x = Inr (d, h', w') \<longrightarrow>
      forward N h (WFlowNet m) x = Inr (d, h', WFlowNet (m\<lparr>wrapped := w'\<rparr>)))
   \<and> (UNetFlow_forward N h (wrapped m) x = Inr (d, h', w') \<longrightarrow>
      forward N h (FlowNet m) x = Inr (d, h', FlowNet (m\<lparr>wrapped := w'\<rparr>)))
   \<and> (UNetFlowNoRecur_forward N h (wrapped p) x = Inr (d, h', u') \<longrightarrow>
      forward N h (FlowNetNoRecur p) x = Inr (d, h', FlowNetNoRecur (p\<lparr>wrapped := u'\<rparr>)))
   \<and> (UNetRecurrent_forward N h (wrapped m) x = Inr (d, h', w') \<longrightarrow>
      forward N h (E2VIDRecurrent m) x = Inr (d, h', E2VIDRecurrent (m\<lparr>wrapped := w'\<rparr>)))"
  by (simp add: delegate_def lift_model_def)

section \<open>Properties of \<^verbatim>\<open>copy_states\<close>\<close>

text \<open>
  C9: \<^verbatim>\<open>copy_states\<close> needs a non-empty list. On an empty one the read of
  \<^verbatim>\<open>states[0]\<close> raises \<^verbatim>\<open>IndexError\<close>, and so does the \<^verbatim>\<open>states\<close> getter of each recurrent
  wrapper whose live list is empty.
\<close>

theorem copy_states_empty_fails:
  assumes "list_store h ! l = []"
  shows "copy_states h l = Inl IndexError \<and>
         (live_states m = Some l \<longrightarrow> states_getter h m = Inl IndexError)"
proof -
  have c: "copy_states h l = Inl IndexError"
    using assms by (simp add: copy_states_def)
  have "states_getter h m = Inl IndexError" if "live_states m = Some l"
    using that c by (cases m) simp_all
  with c show ?thesis by simp
qed

theorem copy_states_empty_fails_witness:
  "list_store ex_heap ! 3 = [] \<and> copy_states ex_heap 3 = Inl IndexError \<and>
   live_states (E2VIDRecurrent (ex_wrapper 3 0)) = Some 3 \<and>
   states_getter ex_heap (E2VIDRecurrent (ex_wrapper 3 0)) = Inl IndexError"
proof -
  have e: "list_store ex_heap ! 3 = []" by (simp add: ex_heap_def)
  have l: "live_states (E2VIDRecurrent (ex_wrapper 3 0)) = Some 3" by (simp add: ex_wrapper_def)
  from copy_states_empty_fails [OF e, of "E2VIDRecurrent (ex_wrapper 3 0)"] e l
  show ?thesis by simp
qed

text \<open>
  C10: \<^verbatim>\<open>copy_states\<close> looks at the first entry only. A list whose first entry is
  \<^verbatim>\<open>None\<close> is deep-copied as a whole, whatever its later entries are; a list whose first
  entry is a tensor or a pair goes through \<^verbatim>\<open>recursive_clone\<close> as a whole, whatever its
  later entries are.
\<close>

theorem copy_states_first_entry_decides:
  "(list_store h ! l = SNone # rest \<longrightarrow> copy_states h l = deepcopy h l) \<and>
   (list_store h ! l = s0 # rest \<and> s0 \<noteq> SNone \<longrightarrow> copy_states h l = recursive_clone h l)"
  by (simp add: copy_states_def)

theorem copy_states_first_entry_decides_witness:
  "list_store ex_heap ! 1 = SNone # [STensor 0] \<and>
   copy_states ex_heap 1 = deepcopy ex_heap 1 \<and>
   list_store ex_heap ! 2 = STensor 1 # [SNone] \<and> STensor 1 \<noteq> SNone \<and>
   copy_states ex_heap 2 = recursive_clone ex_heap 2"
proof -
  have a: "list_store ex_heap ! 1 = SNone # [STensor 0]" by (simp add: ex_heap_def)
  have b: "list_store ex_heap ! 2 = STensor 1 # [SNone]" by (simp add: ex_heap_def)
  from copy_states_first_entry_decides [where h = ex_heap and l = 1 and rest = "[STensor 0]"] a
  have c: "copy_states ex_heap 1 = deepcopy ex_heap 1" by blast
  from copy_states_first_entry_decides
         [where h = ex_heap and l = 2 and ?s0.0 = "STensor 1" and rest = "[SNone]"] b
  have d: "copy_states ex_heap 2 = recursive_clone ex_heap 2" by blast
  from a b c d show ?thesis by simp
qed

text \<open>
  C3, as the code has it: on a well-formed store, for a recurrent wrapper whose live list
  is not empty, \<^verbatim>\<open>copy_states\<close>, and with it the \<^verbatim>\<open>states\<close> getter, is the generic deep
  copy when every entry is absent, which allocates only a new list of the same absent
  entries, and is the recursive clone when every entry is populated, whose result has a
  pair where the input has a pair and a single tensor where it has one, reads the same,
  and holds only tensors allocated by the call, none of them a tensor of the input.
\<close>

theorem copy_states_by_form:
  assumes "live_states m = Some l" "wf_list h l" "list_store h ! l \<noteq> []"
  shows "((\<forall>s \<in> set (list_store h ! l). s = SNone) \<longrightarrow>
            copy_states h l = deepcopy h l \<and> states_getter h m = deepcopy h l \<and>
            states_getter h m =
              Inr (length (list_store h), h\<lparr>list_store := list_store h @ [list_store h ! l]\<rparr>))
       \<and> ((\<forall>s \<in> set (list_store h ! l). s \<noteq> SNone) \<longrightarrow>
            copy_states h l = recursive_clone h l \<and> states_getter h m = recursive_clone h l \<and>
            (\<exists>r h'. states_getter h m = Inr (r, h') \<and> r \<noteq> l
               \<and> map kind_of (list_store h' ! r) = map kind_of (list_store h ! l)
               \<and> read_states h' r = read_states h l
               \<and> refs (list_store h' ! r) \<inter> refs (list_store h ! l) = {}
               \<and> (\<forall>a \<in> refs (list_store h' ! r). length (tensor_store h) \<le> a)))"
proof (intro conjI impI)
  note g = states_getter_live [OF assms(1), of h]
  assume a: "\<forall>s \<in> set (list_store h ! l). s = SNone"
  from assms(3) obtain s0 rest where ss: "list_store h ! l = s0 # rest"
    by (cases "list_store h ! l") auto
  with a have "s0 = SNone" by simp
  with ss show d: "copy_states h l = deepcopy h l" by (simp add: copy_states_def)
  with g show "states_getter h m = deepcopy h l" by simp
  from d g deepcopy_all_none [OF a]
  show "states_getter h m =
          Inr (length (list_store h), h\<lparr>list_store := list_store h @ [list_store h ! l]\<rparr>)"
    by simp
next
  note g = states_getter_live [OF assms(1), of h]
  assume a: "\<forall>s \<in> set (list_store h ! l). s \<noteq> SNone"
  from assms(3) obtain s0 rest where ss: "list_store h ! l = s0 # rest"
    by (cases "list_store h ! l") auto
  with a have s0: "s0 \<noteq> SNone" by simp
  with ss show c: "copy_states h l = recursive_clone h l" by (simp add: copy_states_def)
  with g show "states_getter h m = recursive_clone h l" by simp
  from ss s0 have lf: "hd (list_store h ! l) = SNone \<longrightarrow>
      (\<forall>a \<in> refs (list_store h ! l). is_leaf h a)" by simp
  from copy_states_independent [OF assms(2,3) lf] obtain r h' where
    c: "copy_states h l = Inr (r, h')" and ne: "r \<noteq> l"
    and app: "list_store h' = list_store h @ [list_store h' ! r]"
    and v1: "read_states h' r = read_states h l"
    and d: "refs (list_store h' ! r) \<inter> refs (list_store h' ! l) = {}"
    and fr: "\<forall>a \<in> refs (list_store h' ! r). length (tensor_store h) \<le> a"
    by blast
  from assms(2) have "l < length (list_store h)" by (simp add: wf_list_def)
  with app have ll: "list_store h' ! l = list_store h ! l"
    by (metis nth_append)
  have k: "map kind_of (list_store h' ! r) = map kind_of (list_store h ! l)"
    using kinds_of_read_states v1 unfolding read_states_def by blast
  have gg: "states_getter h m = Inr (r, h')" using g c by simp
  from gg ne k v1 d ll fr
  show "\<exists>r h'. states_getter h m = Inr (r, h') \<and> r \<noteq> l
               \<and> map kind_of (list_store h' ! r) = map kind_of (list_store h ! l)
               \<and> read_states h' r = read_states h l
               \<and> refs (list_store h' ! r) \<inter> refs (list_store h ! l) = {}
               \<and> (\<forall>a \<in> refs (list_store h' ! r). length (tensor_store h) \<le> a)"
    by auto
qed

theorem copy_states_by_form_witness:
  "live_states (E2VIDRecurrent (ex_wrapper 4 2)) = Some 4 \<and>
   wf_list ex_heap 4 \<and> list_store ex_heap ! 4 = [SNone, SNone] \<and>
   copy_states ex_heap 4 = deepcopy ex_heap 4 \<and>
   states_getter ex_heap (E2VIDRecurrent (ex_wrapper 4 2)) = deepcopy ex_heap 4 \<and>
   states_getter ex_heap (E2VIDRecurrent (ex_wrapper 4 2)) =
     Inr (5, ex_heap\<lparr>list_store := list_store ex_heap @ [[SNone, SNone]]\<rparr>) \<and>
   live_states (WFlowNet (ex_wrapper 0 1)) = Some 0 \<and>
   wf_list ex_heap 0 \<and> list_store ex_heap ! 0 = [STuple 0 1] \<and>
   copy_states ex_heap 0 = recursive_clone ex_heap 0 \<and>
   states_getter ex_heap (WFlowNet (ex_wrapper 0 1)) = recursive_clone ex_heap 0 \<and>
   (\<exists>r h'. states_getter ex_heap (WFlowNet (ex_wrapper 0 1)) = Inr (r, h') \<and> r \<noteq> 0
      \<and> map kind_of (list_store h' ! r) = [Paired]
      \<and> read_states h' r = read_states ex_heap 0
      \<and> refs (list_store h' ! r) \<inter> refs (list_store ex_heap ! 0) = {}
      \<and> (\<forall>a \<in> refs (list_store h' ! r). 2 \<le> a))"
proof -
  have m4: "live_states (E2VIDRecurrent (ex_wrapper 4 2)) = Some 4" by (simp add: ex_wrapper_def)
  have m0: "live_states (WFlowNet (ex_wrapper 0 1)) = Some 0" by (simp add: ex_wrapper_def)
  have w4: "wf_list ex_heap 4" by (simp add: wf_list_def wf_states_def refs_def ex_heap_def)
  have n4: "list_store ex_heap ! 4 \<noteq> []" by (simp add: ex_heap_def)
  have a4: "\<forall>s \<in> set (list_store ex_heap ! 4). s = SNone" by (simp add: ex_heap_def)
  have l4: "list_store ex_heap ! 4 = [SNone, SNone]" "length (list_store ex_heap) = 5"
    by (simp_all add: ex_heap_def)
  have w0: "wf_list ex_heap 0" by (simp add: wf_list_def wf_states_def refs_def ex_heap_def)
  have n0: "list_store ex_heap ! 0 \<noteq> []" by (simp add: ex_heap_def)
  have a0: "\<forall>s \<in> set (list_store ex_heap ! 0). s \<noteq> SNone" by (simp add: ex_heap_def)
  have l0: "map kind_of (list_store ex_heap ! 0) = [Paired]" "length (tensor_store ex_heap) = 2"
    by (simp_all add: ex_heap_def)
  have e0: "list_store ex_heap ! 0 = [STuple 0 1]" by (simp add: ex_heap_def)
  from copy_states_by_form [OF m4 w4 n4] a4
  have "copy_states ex_heap 4 = deepcopy ex_heap 4 \<and>
    states_getter ex_heap (E2VIDRecurrent (ex_wrapper 4 2)) = deepcopy ex_heap 4 \<and>
    states_getter ex_heap (E2VIDRecurrent (ex_wrapper 4 2)) =
      Inr (length (list_store ex_heap), ex_heap\<lparr>list_store := list_store ex_heap @ [list_store ex_heap ! 4]\<rparr>)"
    by blast
  then have p4: "copy_states ex_heap 4 = deepcopy ex_heap 4 \<and>
    states_getter ex_heap (E2VIDRecurrent (ex_wrapper 4 2)) = deepcopy ex_heap 4 \<and>
    states_getter ex_heap (E2VIDRecurrent (ex_wrapper 4 2)) =
      Inr (5, ex_heap\<lparr>list_store := list_store ex_heap @ [[SNone, SNone]]\<rparr>)"
    unfolding l4 .
  from copy_states_by_form [OF m0 w0 n0] a0
  have "copy_states ex_heap 0 = recursive_clone ex_heap 0 \<and>
   states_getter ex_heap (WFlowNet (ex_wrapper 0 1)) = recursive_clone ex_heap 0 \<and>
   (\<exists>r h'. states_getter ex_heap (WFlowNet (ex_wrapper 0 1)) = Inr (r, h') \<and> r \<noteq> 0
      \<and> map kind_of (list_store h' ! r) = map kind_of (list_store ex_heap ! 0)
      \<and> read_states h' r = read_states ex_heap 0
      \<and> refs (list_store h' ! r) \<inter> refs (list_store ex_heap ! 0) = {}
      \<and> (\<forall>a \<in> refs (list_store h' ! r). length (tensor_store ex_heap) \<le> a))"
    by blast
  then have p0: "copy_states ex_heap 0 = recursive_clone ex_heap 0 \<and>
   states_getter ex_heap (WFlowNet (ex_wrapper 0 1)) = recursive_clone ex_heap 0 \<and>
   (\<exists>r h'. states_getter ex_heap (WFlowNet (ex_wrapper 0 1)) = Inr (r, h') \<and> r \<noteq> 0
      \<and> map kind_of (list_store h' ! r) = [Paired]
      \<and> read_states h' r = read_states ex_heap 0
      \<and> refs (list_store h' ! r) \<inter> refs (list_store ex_heap ! 0) = {}
      \<and> (\<forall>a \<in> refs (list_store h' ! r). 2 \<le> a))"
    unfolding l0 .
  from m4 w4 l4(1) p4 m0 w0 e0 p0 show ?thesis by blast
qed

text \<open>
  The empty list, in which every entry is absent and every entry is populated, is copied
  in neither way: the deep copy and the recursive clone of it are new empty lists, and
  \<^verbatim>\<open>copy_states\<close>, and with it the getter, raises \<^verbatim>\<open>IndexError\<close>.
\<close>

theorem copy_states_by_form_counterexample:
  "list_store ex_heap ! 3 = [] \<and>
   deepcopy ex_heap 3 = Inr (5, ex_heap\<lparr>list_store := list_store ex_heap @ [[]]\<rparr>) \<and>
   recursive_clone ex_heap 3 = Inr (5, ex_heap\<lparr>list_store := list_store ex_heap @ [[]]\<rparr>) \<and>
   copy_states ex_heap 3 = Inl IndexError \<and>
   states_getter ex_heap (FlowNet (ex_wrapper 3 2)) = Inl IndexError"
proof -
  have e: "list_store ex_heap ! 3 = []" and n: "length (list_store ex_heap) = 5"
    by (simp_all add: ex_heap_def)
  have d: "deepcopy ex_heap 3 = Inr (5, ex_heap\<lparr>list_store := list_store ex_heap @ [[]]\<rparr>)"
    by (simp add: deepcopy_def e n)
  have r: "recursive_clone ex_heap 3 = Inr (5, ex_heap\<lparr>list_store := list_store ex_heap @ [[]]\<rparr>)"
    by (simp add: recursive_clone_def e n)
  have c: "copy_states ex_heap 3 = Inl IndexError" by (simp add: copy_states_def e)
  have g: "states_getter ex_heap (FlowNet (ex_wrapper 3 2)) = Inl IndexError"
    by (simp add: ex_wrapper_def c)
  from e d r c g show ?thesis by blast
qed

section \<open>Properties of \<^verbatim>\<open>reset_states\<close> and the \<^verbatim>\<open>states\<close> property\<close>

text \<open>
  C6: \<^verbatim>\<open>reset_states\<close> of \<^verbatim>\<open>FlowNetNoRecur\<close> and of \<^verbatim>\<open>EVFlowNet\<close> does nothing: on every
  store and every instance it returns normally, with the store (so nothing allocated)
  and the instance as they were.
\<close>

theorem noop_reset_states:
  "reset_states h (FlowNetNoRecur m) = Inr (h, FlowNetNoRecur m) \<and>
   reset_states h (EVFlowNet m) = Inr (h, EVFlowNet m)"
  by simp

text \<open>
  C1, as the code has it: for each recurrent wrapper (\<^verbatim>\<open>WFlowNet\<close>, \<^verbatim>\<open>FlowNet\<close>,
  \<^verbatim>\<open>E2VIDRecurrent\<close>) whose live state list is not empty and either starts with a populated
  entry or holds only tensors that are graph leaves, reading \<^verbatim>\<open>states\<close> returns a new
  list object that reads the same as the live list and shares no tensor with it.
  Assigning to an item of the returned list, or writing in place to any tensor it holds,
  leaves what the live list reads unchanged.
\<close>

theorem states_getter_independent_copy:
  assumes "live_states m = Some l" "wf_list h l" "list_store h ! l \<noteq> []"
    and "hd (list_store h ! l) = SNone \<longrightarrow> (\<forall>a \<in> refs (list_store h ! l). is_leaf h a)"
  shows "\<exists>r h'. states_getter h m = Inr (r, h') \<and> r \<noteq> l
       \<and> read_states h' r = read_states h l
       \<and> read_states h' l = read_states h l
       \<and> refs (list_store h' ! r) \<inter> refs (list_store h' ! l) = {}
       \<and> (\<forall>i v h''. setitem h' r i v = Inr h'' \<longrightarrow> read_states h'' l = read_states h l)
       \<and> (\<forall>a t. a \<in> refs (list_store h' ! r) \<longrightarrow>
              read_states (tensor_write h' a t) l = read_states h l)"
proof -
  from copy_states_independent [OF assms(2,3,4)] obtain r h' where
    c: "copy_states h l = Inr (r, h')" and ne: "r \<noteq> l"
    and v1: "read_states h' r = read_states h l"
    and v2: "read_states h' l = read_states h l"
    and d: "refs (list_store h' ! r) \<inter> refs (list_store h' ! l) = {}"
    by blast
  have g: "states_getter h m = Inr (r, h')"
    using states_getter_live [OF assms(1)] c by simp
  have s: "\<forall>i v h''. setitem h' r i v = Inr h'' \<longrightarrow> read_states h'' l = read_states h l"
    using read_states_setitem_other [OF _ ne] v2 by metis
  have w: "\<forall>a t. a \<in> refs (list_store h' ! r) \<longrightarrow>
              read_states (tensor_write h' a t) l = read_states h l"
  proof (intro allI impI)
    fix a t assume "a \<in> refs (list_store h' ! r)"
    with d have "a \<notin> refs (list_store h' ! l)" by blast
    from read_states_tensor_write_other [OF this] v2
    show "read_states (tensor_write h' a t) l = read_states h l" by simp
  qed
  from g ne v1 v2 d s w show ?thesis by blast
qed

theorem states_getter_independent_copy_witness:
  "live_states (WFlowNet (ex_wrapper 1 2)) = Some 1 \<and> wf_list ex_heap 1 \<and>
   list_store ex_heap ! 1 = [SNone, STensor 0] \<and> is_leaf ex_heap 0 \<and>
   (\<exists>r h'. states_getter ex_heap (WFlowNet (ex_wrapper 1 2)) = Inr (r, h') \<and> r \<noteq> 1
       \<and> read_states h' r = read_states ex_heap 1
       \<and> read_states h' 1 = read_states ex_heap 1
       \<and> refs (list_store h' ! r) \<inter> refs (list_store h' ! 1) = {}
       \<and> (\<forall>i v h''. setitem h' r i v = Inr h'' \<longrightarrow> read_states h'' 1 = read_states ex_heap 1)
       \<and> (\<forall>a t. a \<in> refs (list_store h' ! r) \<longrightarrow>
              read_states (tensor_write h' a t) 1 = read_states ex_heap 1))"
proof -
  have a: "live_states (WFlowNet (ex_wrapper 1 2)) = Some 1" by (simp add: ex_wrapper_def)
  have b: "wf_list ex_heap 1"
    by (simp add: wf_list_def wf_states_def refs_def ex_heap_def)
  have e: "list_store ex_heap ! 1 = [SNone, STensor 0]" by (simp add: ex_heap_def)
  then have c: "list_store ex_heap ! 1 \<noteq> []" by simp
  have l: "is_leaf ex_heap 0" by (simp add: ex_heap_def)
  have d: "hd (list_store ex_heap ! 1) = SNone \<longrightarrow>
      (\<forall>a \<in> refs (list_store ex_heap ! 1). is_leaf ex_heap a)"
    unfolding e using l by (simp add: refs_def)
  from states_getter_independent_copy [OF a b c d] a b e l show ?thesis by blast
qed

text \<open>
  On an empty live list (as \<^verbatim>\<open>model.states = []\<close> leaves it) the getter returns no copy:
  it raises \<^verbatim>\<open>IndexError\<close>. On a live list that starts absent and holds a tensor that is
  an inner node of a gradient graph, the deep copy raises \<^verbatim>\<open>RuntimeError\<close>.
\<close>

theorem states_getter_empty_counterexample:
  "states_getter ex_heap (WFlowNet (ex_wrapper 3 0)) = Inl IndexError \<and>
   states_getter ex_grad_heap (WFlowNet (ex_wrapper 0 2)) = Inl RuntimeError"
proof -
  have a: "states_getter ex_heap (WFlowNet (ex_wrapper 3 0)) = Inl IndexError"
    by (simp add: ex_wrapper_def ex_heap_def copy_states_def)
  have b: "states_getter ex_grad_heap (WFlowNet (ex_wrapper 0 2)) = Inl RuntimeError"
    by (simp add: ex_wrapper_def ex_grad_heap_def copy_states_def deepcopy_def
          deepcopy_tensor_def)
  from a b show ?thesis by simp
qed

text \<open>
  C2, as the code has it: for each recurrent wrapper whose wrapped network has at least
  one encoder, \<^verbatim>\<open>reset_states()\<close> followed by a read of \<^verbatim>\<open>states\<close> returns a list, other
  than the live one, of absent entries, as many as the \<^verbatim>\<open>num_encoders\<close> of the wrapped
  network.
\<close>

theorem reset_then_states:
  assumes "net_encoders m = Some n" "0 < n"
  shows "\<exists>h1 m1 r h2. reset_states h m = Inr (h1, m1) \<and> states_getter h1 m1 = Inr (r, h2)
           \<and> live_states m1 \<noteq> Some r
           \<and> list_store h2 ! r = replicate (nat n) SNone
           \<and> length (list_store h2 ! r) = nat n
           \<and> net_encoders m1 = Some n"
proof -
  let ?ns = "replicate (nat n) SNone"
  let ?h1 = "h\<lparr>list_store := list_store h @ [?ns]\<rparr>"
  let ?l = "length (list_store h)"
  from reset_recurrent_live [OF assms(1)] obtain m1 where
    r: "reset_states h m = Inr (?h1, m1)" and l: "live_states m1 = Some ?l"
    and e: "net_encoders m1 = Some n" by blast
  have ll: "list_store ?h1 ! ?l = ?ns" by simp
  from assms(2) obtain k where k: "nat n = Suc k" by (cases "nat n") auto
  have c: "copy_states ?h1 ?l = deepcopy ?h1 ?l"
    using ll k by (simp add: copy_states_def)
  have "\<forall>s \<in> set (list_store ?h1 ! ?l). s = SNone" using ll by simp
  from deepcopy_all_none [OF this]
  have d: "deepcopy ?h1 ?l = Inr (Suc ?l, ?h1\<lparr>list_store := list_store ?h1 @ [?ns]\<rparr>)"
    using ll by simp
  let ?h2 = "?h1\<lparr>list_store := list_store ?h1 @ [?ns]\<rparr>"
  have g: "states_getter ?h1 m1 = Inr (Suc ?l, ?h2)"
    using states_getter_live [OF l] c d by simp
  have v: "list_store ?h2 ! Suc ?l = ?ns" by (simp add: nth_append)
  from r g l v e show ?thesis by auto
qed

theorem reset_then_states_witness:
  "net_encoders (E2VIDRecurrent (ex_wrapper 0 3)) = Some 3 \<and> (0::int) < 3 \<and>
   (\<exists>h1 m1 r h2. reset_states ex_heap (E2VIDRecurrent (ex_wrapper 0 3)) = Inr (h1, m1)
           \<and> states_getter h1 m1 = Inr (r, h2)
           \<and> live_states m1 \<noteq> Some r
           \<and> list_store h2 ! r = replicate (nat 3) SNone
           \<and> length (list_store h2 ! r) = nat 3
           \<and> net_encoders m1 = Some 3)"
proof -
  have a: "net_encoders (E2VIDRecurrent (ex_wrapper 0 3)) = Some 3" by (simp add: ex_wrapper_def)
  have b: "(0::int) < 3" by simp
  from reset_then_states [OF a b] a b show ?thesis by blast
qed

text \<open>
  \<^verbatim>\<open>EVFlowNet\<close> and \<^verbatim>\<open>FlowNetNoRecur\<close> have no \<^verbatim>\<open>states\<close> to read after their
  \<^verbatim>\<open>reset_states()\<close>, and a recurrent wrapper over a network of no encoders resets to the
  empty list, which the getter cannot copy.
\<close>

theorem reset_then_states_counterexample:
  "reset_states ex_heap (EVFlowNet ex_plain) = Inr (ex_heap, EVFlowNet ex_plain) \<and>
   states_getter ex_heap (EVFlowNet ex_plain) = Inl AttributeError \<and>
   reset_states ex_heap (FlowNetNoRecur ex_plain) = Inr (ex_heap, FlowNetNoRecur ex_plain) \<and>
   states_getter ex_heap (FlowNetNoRecur ex_plain) = Inl AttributeError \<and>
   reset_states ex_heap (WFlowNet (ex_wrapper 0 0)) =
     Inr (ex_heap\<lparr>list_store := list_store ex_heap @ [[]]\<rparr>, WFlowNet (ex_wrapper 5 0)) \<and>
   states_getter (ex_heap\<lparr>list_store := list_store ex_heap @ [[]]\<rparr>) (WFlowNet (ex_wrapper 5 0))
     = Inl IndexError"
  by (simp add: ex_wrapper_def ex_heap_def reset_recurrent_def new_none_list_def copy_states_def)

text \<open>
  C5, as the code has it: the setter of a recurrent wrapper stores whatever reference it
  is given. When the list given is allocated and not empty, and either starts with a
  populated entry or holds only tensors that are graph leaves, the getter then returns
  another list object that reads the same and shares no tensor with it, and storing that
  list again leaves a live state that reads as the first one did.
\<close>

theorem states_setter_roundtrip:
  assumes "live_states m = Some l" "wf_list h s" "list_store h ! s \<noteq> []"
    and "hd (list_store h ! s) = SNone \<longrightarrow> (\<forall>a \<in> refs (list_store h ! s). is_leaf h a)"
  shows "(\<forall>x. \<exists>mx. states_setter m x = Some mx \<and> live_states mx = Some x) \<and>
         (\<exists>m'. states_setter m s = Some m' \<and> live_states m' = Some s \<and>
          (\<exists>r h'. states_getter h m' = Inr (r, h') \<and> r \<noteq> s
             \<and> read_states h' r = read_states h s
             \<and> read_states h' s = read_states h s
             \<and> refs (list_store h' ! r) \<inter> refs (list_store h' ! s) = {}
             \<and> (\<exists>m''. states_setter m' r = Some m'' \<and> live_states m'' = Some r
                    \<and> read_states h' r = read_states h s)))"
proof -
  have nv: "\<forall>x. \<exists>mx. states_setter m x = Some mx \<and> live_states mx = Some x"
    using states_setter_recurrent [OF assms(1)] by blast
  from states_setter_recurrent [OF assms(1)] obtain m' where
    m': "states_setter m s = Some m'" "live_states m' = Some s" by blast
  from copy_states_independent [OF assms(2,3,4)] obtain r h' where
    c: "copy_states h s = Inr (r, h')" and ne: "r \<noteq> s"
    and v1: "read_states h' r = read_states h s"
    and v2: "read_states h' s = read_states h s"
    and d: "refs (list_store h' ! r) \<inter> refs (list_store h' ! s) = {}"
    by blast
  have g: "states_getter h m' = Inr (r, h')"
    using states_getter_live [OF m'(2)] c by simp
  from states_setter_recurrent [OF m'(2)] obtain m'' where
    m'': "states_setter m' r = Some m''" "live_states m'' = Some r" by blast
  from m' g ne v1 v2 d m''
  have "\<exists>m'. states_setter m s = Some m' \<and> live_states m' = Some s \<and>
          (\<exists>r h'. states_getter h m' = Inr (r, h') \<and> r \<noteq> s
             \<and> read_states h' r = read_states h s
             \<and> read_states h' s = read_states h s
             \<and> refs (list_store h' ! r) \<inter> refs (list_store h' ! s) = {}
             \<and> (\<exists>m''. states_setter m' r = Some m'' \<and> live_states m'' = Some r
                    \<and> read_states h' r = read_states h s))"
    by blast
  with nv show ?thesis by blast
qed

theorem states_setter_roundtrip_witness:
  "live_states (FlowNet (ex_wrapper 4 2)) = Some 4 \<and> wf_list ex_heap 1 \<and>
   list_store ex_heap ! 1 = [SNone, STensor 0] \<and> is_leaf ex_heap 0 \<and>
   (\<forall>x. \<exists>mx. states_setter (FlowNet (ex_wrapper 4 2)) x = Some mx \<and> live_states mx = Some x) \<and>
   (\<exists>m'. states_setter (FlowNet (ex_wrapper 4 2)) 1 = Some m' \<and> live_states m' = Some 1 \<and>
          (\<exists>r h'. states_getter ex_heap m' = Inr (r, h') \<and> r \<noteq> 1
             \<and> read_states h' r = read_states ex_heap 1
             \<and> read_states h' 1 = read_states ex_heap 1
             \<and> refs (list_store h' ! r) \<inter> refs (list_store h' ! 1) = {}
             \<and> (\<exists>m''. states_setter m' r = Some m'' \<and> live_states m'' = Some r
                    \<and> read_states h' r = read_states ex_heap 1)))"
proof -
  have a: "live_states (FlowNet (ex_wrapper 4 2)) = Some 4" by (simp add: ex_wrapper_def)
  have b: "wf_list ex_heap 1"
    by (simp add: wf_list_def wf_states_def refs_def ex_heap_def)
  have e: "list_store ex_heap ! 1 = [SNone, STensor 0]" by (simp add: ex_heap_def)
  then have c: "list_store ex_heap ! 1 \<noteq> []" by simp
  have l: "is_leaf ex_heap 0" by (simp add: ex_heap_def)
  have d: "hd (list_store ex_heap ! 1) = SNone \<longrightarrow>
      (\<forall>a \<in> refs (list_store ex_heap ! 1). is_leaf ex_heap a)"
    unfolding e using l by (simp add: refs_def)
  from states_setter_roundtrip [OF a b c d] a b e l show ?thesis by blast
qed

text \<open>
  A list that starts absent and holds a tensor that is an inner node of a gradient graph
  is stored by the setter as any other, and the getter then raises \<^verbatim>\<open>RuntimeError\<close>.
\<close>

theorem states_setter_roundtrip_counterexample:
  "wf_list ex_grad_heap 0 \<and> list_store ex_grad_heap ! 0 = [SNone, STensor 0] \<and>
   states_setter (FlowNet (ex_wrapper 4 2)) 0 = Some (FlowNet (ex_wrapper 0 2)) \<and>
   states_getter ex_grad_heap (FlowNet (ex_wrapper 0 2)) = Inl RuntimeError"
proof -
  have w: "wf_list ex_grad_heap 0"
    by (simp add: wf_list_def wf_states_def refs_def ex_grad_heap_def)
  have e: "list_store ex_grad_heap ! 0 = [SNone, STensor 0]" by (simp add: ex_grad_heap_def)
  have s: "states_setter (FlowNet (ex_wrapper 4 2)) 0 = Some (FlowNet (ex_wrapper 0 2))"
    by (simp add: ex_wrapper_def set_states_def)
  have g: "states_getter ex_grad_heap (FlowNet (ex_wrapper 0 2)) = Inl RuntimeError"
    by (simp add: ex_wrapper_def ex_grad_heap_def copy_states_def deepcopy_def
          deepcopy_tensor_def)
  from w e s g show ?thesis by blast
qed

section \<open>Properties of \<^verbatim>\<open>EVFlowNet.__init__\<close>\<close>

text \<open>
  C8: \<^verbatim>\<open>EVFlowNet.__init__\<close> updates the caller's dictionary object in place. Whenever the
  dictionary has \<^verbatim>\<open>num_bins\<close> and the constructor of the wrapped network returns, the new
  model has \<^verbatim>\<open>num_encoders = 4\<close>, whatever the caller had supplied; the nine hardcoded
  keys (distinct, \<^verbatim>\<open>num_encoders = 4\<close> and \<^verbatim>\<open>num_output_channels = 2\<close> among them) hold
  their hardcoded values in the caller's dictionary as it is handed on to the wrapped
  network, and every other key holds what it held.
\<close>

theorem EVFlowNet_init_overrides:
  assumes "d < length (dict_store h)"
    and "(dict_store h ! d) ''num_bins'' = Some nb"
    and "UNet (dict_update h d EVFlowNet_kwargs) d = Inr (u, h2)"
  shows "EVFlowNet_init UNet h d = Inr (\<lparr>num_bins = nb, num_encoders = IntV 4, wrapped = u\<rparr>, h2)
       \<and> length EVFlowNet_kwargs = 9 \<and> distinct (map fst EVFlowNet_kwargs)
       \<and> (\<forall>(k, v) \<in> set EVFlowNet_kwargs.
             (dict_store (dict_update h d EVFlowNet_kwargs) ! d) k = Some v)
       \<and> (\<forall>k. k \<notin> fst ` set EVFlowNet_kwargs \<longrightarrow>
             (dict_store (dict_update h d EVFlowNet_kwargs) ! d) k = (dict_store h ! d) k)"
proof -
  let ?h1 = "dict_update h d EVFlowNet_kwargs"
  note lk = dict_update_lookup [OF assms(1), of EVFlowNet_kwargs]
  have ov: "\<forall>(k, v) \<in> set EVFlowNet_kwargs. (dict_store ?h1 ! d) k = Some v"
    using EVFlowNet_kwargs_distinct by (auto simp: lk map_add_Some_iff)
  have keep: "\<forall>k. k \<notin> fst ` set EVFlowNet_kwargs \<longrightarrow> (dict_store ?h1 ! d) k = (dict_store h ! d) k"
  proof (intro allI impI)
    fix k :: string assume "k \<notin> fst ` set EVFlowNet_kwargs"
    then have "map_of EVFlowNet_kwargs k = None" by (simp add: map_of_eq_None_iff)
    then show "(dict_store ?h1 ! d) k = (dict_store h ! d) k" by (simp add: lk map_add_def)
  qed
  have "(''num_encoders'', IntV 4) \<in> set EVFlowNet_kwargs" by (simp add: EVFlowNet_kwargs_def)
  with ov have ne: "getitem ?h1 d ''num_encoders'' = Inr (IntV 4)"
    by (auto simp: getitem_def)
  have "''num_bins'' \<notin> fst ` set EVFlowNet_kwargs"
    using EVFlowNet_kwargs_keys by (simp flip: set_map)
  with keep assms(2) have nbq: "getitem ?h1 d ''num_bins'' = Inr nb"
    by (simp add: getitem_def)
  have i: "EVFlowNet_init UNet h d = Inr (\<lparr>num_bins = nb, num_encoders = IntV 4, wrapped = u\<rparr>, h2)"
    using ne nbq assms(3) by (simp add: EVFlowNet_init_def)
  have l: "length EVFlowNet_kwargs = 9" by (simp add: EVFlowNet_kwargs_def)
  from i l EVFlowNet_kwargs_distinct ov keep show ?thesis by blast
qed

theorem EVFlowNet_init_overrides_witness:
  "(0::nat) < length (dict_store ex_heap) \<and>
   (dict_store ex_heap ! 0) ''num_bins'' = Some (IntV 5) \<and>
   (dict_store ex_heap ! 0) ''num_encoders'' = Some (IntV 7) \<and>
   ex_UNet (dict_update ex_heap 0 EVFlowNet_kwargs) 0
      = Inr ((), dict_update ex_heap 0 EVFlowNet_kwargs) \<and>
   EVFlowNet_init ex_UNet ex_heap 0
      = Inr (\<lparr>num_bins = IntV 5, num_encoders = IntV 4, wrapped = ()\<rparr>,
             dict_update ex_heap 0 EVFlowNet_kwargs) \<and>
   (dict_store (dict_update ex_heap 0 EVFlowNet_kwargs) ! 0) ''num_encoders'' = Some (IntV 4) \<and>
   (dict_store (dict_update ex_heap 0 EVFlowNet_kwargs) ! 0) ''num_output_channels'' = Some (IntV 2) \<and>
   (dict_store (dict_update ex_heap 0 EVFlowNet_kwargs) ! 0) ''num_bins'' = Some (IntV 5)"
proof -
  have a: "(0::nat) < length (dict_store ex_heap)" by (simp add: ex_heap_def)
  have b: "(dict_store ex_heap ! 0) ''num_bins'' = Some (IntV 5)" by (simp add: ex_heap_def)
  have b': "(dict_store ex_heap ! 0) ''num_encoders'' = Some (IntV 7)" by (simp add: ex_heap_def)
  have c: "ex_UNet (dict_update ex_heap 0 EVFlowNet_kwargs) 0
      = Inr ((), dict_update ex_heap 0 EVFlowNet_kwargs)" by (simp add: ex_UNet_def)
  note t = EVFlowNet_init_overrides
    [where UNet = ex_UNet and h = ex_heap and d = 0 and nb = "IntV 5" and u = "()"
       and ?h2.0 = "dict_update ex_heap 0 EVFlowNet_kwargs", OF a b c]
  have k1: "(''num_encoders'', IntV 4) \<in> set EVFlowNet_kwargs"
    and k2: "(''num_output_channels'', IntV 2) \<in> set EVFlowNet_kwargs"
    and k3: "''num_bins'' \<notin> fst ` set EVFlowNet_kwargs"
    by (simp_all add: EVFlowNet_kwargs_def)
  from t k1 have e1: "(dict_store (dict_update ex_heap 0 EVFlowNet_kwargs) ! 0) ''num_encoders'' = Some (IntV 4)"
    by blast
  from t k2 have e2: "(dict_store (dict_update ex_heap 0 EVFlowNet_kwargs) ! 0) ''num_output_channels'' = Some (IntV 2)"
    by blast
  from t k3 b have e3: "(dict_store (dict_update ex_heap 0 EVFlowNet_kwargs) ! 0) ''num_bins'' = Some (IntV 5)"
    by metis
  from t have e0: "EVFlowNet_init ex_UNet ex_heap 0
      = Inr (\<lparr>num_bins = IntV 5, num_encoders = IntV 4, wrapped = ()\<rparr>,
             dict_update ex_heap 0 EVFlowNet_kwargs)" by blast
  from a b b' c e0 e1 e2 e3 show ?thesis by blast
qed

section \<open>Properties of \<^verbatim>\<open>forward\<close>\<close>

text \<open>
  C4, as the code has it: whenever the wrapped \<^verbatim>\<open>UNet\<close> returns a flow of at least three
  dimensions, \<^verbatim>\<open>EVFlowNet.forward\<close> returns a mapping with exactly the keys \<^verbatim>\<open>flow\<close> and
  \<^verbatim>\<open>image\<close>. The flow is the output of the wrapped network as it is. The image is
  \<^verbatim>\<open>0\<close> times the slice \<^verbatim>\<open>0:1\<close> of the channel dimension of the flow: it has the shape of
  that slice, it is zero at every position where the slice is finite and not a number
  at every position where the slice is infinite or not a number, and it has as many
  elements as its shape says when the flow has.
\<close>

theorem EVFlowNet_forward_output:
  assumes "f h (wrapped m) x = Inr (flow, h', u')" and "shape flow = pre @ [c, hh, w]"
  shows "\<exists>img sl. EVFlowNet_forward f h m x
                 = Inr ([''flow'' \<mapsto> flow, ''image'' \<mapsto> img], h', m\<lparr>wrapped := u'\<rparr>)
       \<and> dom [''flow'' \<mapsto> flow, ''image'' \<mapsto> img] = {''flow'', ''image''}
       \<and> first_channel flow = Inr sl
       \<and> set (elems sl) \<subseteq> set (elems flow)
       \<and> shape img = pre @ [min 1 c, hh, w]
       \<and> length (elems img) = length (elems sl)
       \<and> (\<forall>i < length (elems sl).
             elems img ! i = (if is_fin (elems sl ! i) then Fin 0 else NaN))
       \<and> (length (elems flow) = prod_list (shape flow) \<longrightarrow>
             length (elems img) = prod_list (shape img))"
proof -
  from first_channel_shape [OF assms(2)] obtain sl where
    sl: "first_channel flow = Inr sl" "shape sl = pre @ [min 1 c, hh, w]"
        "set (elems sl) \<subseteq> set (elems flow)" by blast
  let ?img = "scalar_mul_zero sl"
  have e: "EVFlowNet_forward f h m x
             = Inr ([''flow'' \<mapsto> flow, ''image'' \<mapsto> ?img], h', m\<lparr>wrapped := u'\<rparr>)"
    using assms(1) sl(1) by (simp add: EVFlowNet_forward_def delegate_def)
  have d: "dom [''flow'' \<mapsto> flow, ''image'' \<mapsto> ?img] = {''flow'', ''image''}" by auto
  have s: "shape ?img = pre @ [min 1 c, hh, w]" using sl(2) by (simp add: scalar_mul_zero_def)
  have l: "length (elems ?img) = length (elems sl)" by (simp add: scalar_mul_zero_def)
  have p: "\<forall>i < length (elems sl). elems ?img ! i = (if is_fin (elems sl ! i) then Fin 0 else NaN)"
    by (simp add: scalar_mul_zero_def mul_zero_cases)
  have w: "length (elems flow) = prod_list (shape flow) \<longrightarrow>
             length (elems ?img) = prod_list (shape ?img)"
    using first_channel_length [OF assms(2) _ sl(1)] l by (simp add: scalar_mul_zero_def)
  from e d sl(1,3) s l p w show ?thesis by blast
qed

theorem EVFlowNet_forward_output_witness:
  "ex_fwd ex_heap (wrapped ex_plain) \<lparr>shape = [1, 2, 1, 2], elems = [Fin 3, NInf, Fin 1, Fin 2]\<rparr>
     = Inr (\<lparr>shape = [1, 2, 1, 2], elems = [Fin 3, NInf, Fin 1, Fin 2]\<rparr>, ex_heap, ())
   \<and> shape \<lparr>shape = [1, 2, 1, 2], elems = [Fin 3, NInf, Fin 1, Fin 2]\<rparr> = [1] @ [2, 1, 2]
   \<and> (\<exists>img sl. EVFlowNet_forward ex_fwd ex_heap ex_plain
                   \<lparr>shape = [1, 2, 1, 2], elems = [Fin 3, NInf, Fin 1, Fin 2]\<rparr>
                 = Inr ([''flow'' \<mapsto> \<lparr>shape = [1, 2, 1, 2], elems = [Fin 3, NInf, Fin 1, Fin 2]\<rparr>,
                         ''image'' \<mapsto> img], ex_heap, ex_plain)
       \<and> first_channel \<lparr>shape = [1, 2, 1, 2], elems = [Fin 3, NInf, Fin 1, Fin 2]\<rparr> = Inr sl
       \<and> elems sl = [Fin 3, NInf]
       \<and> shape img = [1, 1, 1, 2]
       \<and> elems img = [Fin 0, NaN])"
proof -
  let ?x = "\<lparr>shape = [1, 2, 1, 2], elems = [Fin 3, NInf, Fin 1, Fin 2]\<rparr>"
  have a: "ex_fwd ex_heap (wrapped ex_plain) ?x = Inr (?x, ex_heap, ())"
    by (simp add: ex_fwd_def ex_plain_def)
  have b: "shape ?x = [1] @ [2, 1, 2]" by simp
  have u: "ex_plain\<lparr>wrapped := ()\<rparr> = ex_plain" by (simp add: ex_plain_def)
  have fc: "first_channel ?x = Inr \<lparr>shape = [1, 1, 1, 2], elems = [Fin 3, NInf]\<rparr>"
    by (simp add: first_channel_def)
  note t = EVFlowNet_forward_output
         [where f = ex_fwd and h = ex_heap and m = ex_plain and x = ?x and flow = ?x
            and h' = ex_heap and u' = "()" and pre = "[1]" and c = 2 and hh = 1 and w = 2,
          OF a b]
  from t obtain img sl where
    e: "EVFlowNet_forward ex_fwd ex_heap ex_plain ?x
          = Inr ([''flow'' \<mapsto> ?x, ''image'' \<mapsto> img], ex_heap, ex_plain\<lparr>wrapped := ()\<rparr>)"
    and f: "first_channel ?x = Inr sl"
    and s: "shape img = [1] @ [min 1 2, 1, 2]"
    and l: "length (elems img) = length (elems sl)"
    and p: "\<forall>i < length (elems sl). elems img ! i = (if is_fin (elems sl ! i) then Fin 0 else NaN)"
    by (elim exE conjE) (rule that; assumption)
  from f have "Inr sl = (Inr \<lparr>shape = [1, 1, 1, 2], elems = [Fin 3, NInf]\<rparr> :: error + tensor)"
    unfolding fc by (rule sym)
  then have "sl = \<lparr>shape = [1, 1, 1, 2], elems = [Fin 3, NInf]\<rparr>" by (rule Inr_inject)
  then have sl: "elems sl = [Fin 3, NInf]" by simp
  have l2: "length (elems img) = 2" unfolding l sl by simp
  from p have p': "\<forall>i < 2. elems img ! i = (if is_fin ([Fin 3, NInf] ! i) then Fin 0 else NaN)"
    unfolding sl by simp
  have p0: "elems img ! 0 = Fin 0" using p' [rule_format, of 0] by simp
  have p1: "elems img ! 1 = NaN" using p' [rule_format, of 1] by simp
  have i: "elems img = [Fin 0, NaN]"
  proof (rule nth_equalityI)
    show "length (elems img) = length [Fin 0, NaN]" using l2 by simp
  next
    fix i assume "i < length (elems img)"
    with l2 have "i = 0 \<or> i = 1" by linarith
    with p0 p1 show "elems img ! i = [Fin 0, NaN] ! i" by auto
  qed
  have s': "shape img = [1, 1, 1, 2]" using s by simp
  have e': "EVFlowNet_forward ex_fwd ex_heap ex_plain ?x
          = Inr ([''flow'' \<mapsto> ?x, ''image'' \<mapsto> img], ex_heap, ex_plain)"
    using e unfolding u .
  show ?thesis
    apply (intro conjI)
      apply (rule a)
     apply (rule b)
    apply (rule exI [of _ img])
    apply (rule exI [of _ sl])
    apply (intro conjI)
        apply (rule e')
       apply (rule f)
      apply (rule sl)
     apply (rule s')
    apply (rule i)
    done
qed

text \<open>
  A flow whose first channel holds an infinite value gives an image that is not zero
  there: \<^verbatim>\<open>0 * inf\<close> is not a number.
\<close>

theorem EVFlowNet_forward_nan_counterexample:
  "EVFlowNet_forward ex_fwd ex_heap ex_plain \<lparr>shape = [1, 2, 1, 1], elems = [PInf, Fin 1]\<rparr>
     = Inr ([''flow'' \<mapsto> \<lparr>shape = [1, 2, 1, 1], elems = [PInf, Fin 1]\<rparr>,
             ''image'' \<mapsto> \<lparr>shape = [1, 1, 1, 1], elems = [NaN]\<rparr>], ex_heap, ex_plain)"
proof -
  let ?x = "\<lparr>shape = [1, 2, 1, 1], elems = [PInf, Fin 1]\<rparr>"
  have d: "delegate ex_fwd ex_heap ex_plain ?x = Inr (?x, ex_heap, ex_plain)"
    by (simp add: delegate_def ex_fwd_def ex_plain_def)
  have z: "scalar_mul_zero \<lparr>shape = [1, 1, 1, 1], elems = [PInf]\<rparr>
             = \<lparr>shape = [1, 1, 1, 1], elems = [NaN]\<rparr>"
    by (simp add: scalar_mul_zero_def)
  have "EVFlowNet_forward ex_fwd ex_heap ex_plain ?x
      = (case first_channel ?x of Inl e \<Rightarrow> Inl e
         | Inr sl \<Rightarrow> Inr ([''flow'' \<mapsto> ?x, ''image'' \<mapsto> scalar_mul_zero sl], ex_heap, ex_plain))"
    by (simp only: EVFlowNet_forward_def d sum.case prod.case)
  also have "\<dots> = Inr ([''flow'' \<mapsto> ?x, ''image'' \<mapsto> scalar_mul_zero \<lparr>shape = [1, 1, 1, 1], elems = [PInf]\<rparr>],
                       ex_heap, ex_plain)"
    by (simp only: first_channel_example sum.case)
  finally show ?thesis by (simp only: z)
qed

end
